theory Spec2Isabelle
  imports Complex_Main "HOL-Library.Sublist"
begin

section \<open>Python values used by the stream handlers\<close>

text \<open>
  Strings are lists of 8-bit characters (Python text restricted to code points below 256).
  Exceptions are values: a computation that may raise returns \<open>exn + 'a\<close>, with
  \<open>Inl\<close> for the exception.
\<close>

datatype exn =
    ValueError | KeyError | IndexError | StopIteration
  | RequestError | ParseError | CallbackError

text \<open>\<open>str.isspace\<close> for one character, for the code points below 256.\<close>

definition py_isspace :: "char \<Rightarrow> bool" where
  "py_isspace c =
     (c \<in> set [CHR 0x09, CHR 0x0A, CHR 0x0B, CHR 0x0C, CHR 0x0D, CHR 0x1C, CHR 0x1D,
               CHR 0x1E, CHR 0x1F, CHR 0x20, CHR 0x85, CHR 0xA0])"

text \<open>\<open>s.strip()\<close>: white space removed at both ends.\<close>

definition py_strip :: "string \<Rightarrow> string" where
  "py_strip s = rev (dropWhile py_isspace (rev (dropWhile py_isspace s)))"

text \<open>\<open>s.split(c)\<close> for a separator of one character: never an empty list.\<close>

fun py_split :: "char \<Rightarrow> string \<Rightarrow> string list" where
  "py_split c [] = [[]]"
| "py_split c (x # xs) =
     (if x = c then [] # py_split c xs
      else (case py_split c xs of
              [] \<Rightarrow> [[x]]
            | y # ys \<Rightarrow> (x # y) # ys))"

definition is_digit :: "char \<Rightarrow> bool" where
  "is_digit c = (48 \<le> (of_char c :: nat) \<and> (of_char c :: nat) \<le> 57)"

definition digit_val :: "char \<Rightarrow> nat" where
  "digit_val c = (of_char c :: nat) - 48"

text \<open>The value of a run of decimal digits, most significant first.\<close>

definition digits_val :: "string \<Rightarrow> nat" where
  "digits_val ds = foldl (\<lambda>acc d. 10 * acc + digit_val d) 0 ds"

text \<open>
  The digit part of a decimal literal accepted by \<open>int()\<close>: digits, with single
  underscores allowed between two digits.
\<close>

fun int_body_ok :: "string \<Rightarrow> bool" where
  "int_body_ok [] = False"
| "int_body_ok [c] = is_digit c"
| "int_body_ok (c # d # cs) =
     (is_digit c \<and> (if d = CHR ''_'' then int_body_ok cs else int_body_ok (d # cs)))"

text \<open>
  \<open>int(s)\<close> in base 10: surrounding white space is dropped, one sign is allowed, then
  the digit part. \<open>Inl ValueError\<close> is the exception \<open>int\<close> raises on anything else.
  (The interpreter's configurable limit on the number of digits is not part of the model.)
\<close>

definition py_int :: "string \<Rightarrow> exn + int" where
  "py_int s =
     (let t = py_strip s;
          (sign, body) =
            (case t of
               [] \<Rightarrow> (1, [])
             | c # cs \<Rightarrow>
                 if c = CHR ''+'' then (1, cs)
                 else if c = CHR ''-'' then (- 1, cs)
                 else (1, t))
      in if int_body_ok body
         then Inr (sign * int (digits_val (filter is_digit body)))
         else Inl ValueError)"

section \<open>Segment sequence numbers\<close>

text \<open>
  \<open>Playlist._parse_segment_seq\<close>: the body of the \<open>try\<close> block. \<open>Inr (Some n)\<close> is
  \<open>return n\<close>, \<open>Inr None\<close> is falling out of the \<open>if\<close>, \<open>Inl e\<close> is an exception
  raised inside the block.
\<close>

definition parse_segment_seq_try :: "string \<Rightarrow> exn + int option" where
  "parse_segment_seq_try uri =
     (let parts = py_split (CHR ''-'') uri
      in if length parts > 1
         then (case py_split (CHR ''.'') (parts ! 1) of
                 [] \<Rightarrow> Inl IndexError
               | tok # _ \<Rightarrow>
                   (case py_int tok of
                      Inl e \<Rightarrow> Inl e
                    | Inr n \<Rightarrow> Inr (Some n)))
         else Inr None)"

text \<open>
  The whole function: the bare \<open>except: pass\<close> swallows every exception, and both the
  swallowed exception and the failed \<open>if\<close> end in \<open>return -1\<close>. The result type has no
  exception: the function cannot raise.
\<close>

definition parse_segment_seq :: "string \<Rightarrow> int" where
  "parse_segment_seq uri =
     (case parse_segment_seq_try uri of
        Inr (Some n) \<Rightarrow> n
      | Inr None \<Rightarrow> - 1
      | Inl e \<Rightarrow> - 1)"

section \<open>Dictionaries that keep insertion order\<close>

text \<open>
  A Python \<open>dict\<close> is an association list with distinct keys, in insertion order.
  \<open>d[k] = v\<close> replaces the value in place when the key is there and appends the pair
  otherwise; \<open>k in d\<close> and \<open>d.get(k)\<close> are \<open>map_of\<close>.
\<close>

fun dict_set :: "'k \<Rightarrow> 'v \<Rightarrow> ('k \<times> 'v) list \<Rightarrow> ('k \<times> 'v) list" where
  "dict_set k v [] = [(k, v)]"
| "dict_set k v (kv # d) = (if fst kv = k then (k, v) # d else kv # dict_set k v d)"

text \<open>\<open>sub in s\<close> for strings.\<close>

fun py_contains :: "string \<Rightarrow> string \<Rightarrow> bool" where
  "py_contains sub [] = (sub = [])"
| "py_contains sub (c # cs) = (prefix sub (c # cs) \<or> py_contains sub cs)"

text \<open>\<open>s.rfind(sub)\<close>: the highest index where \<open>sub\<close> starts, \<open>-1\<close> when there is none.\<close>

definition py_rfind :: "string \<Rightarrow> string \<Rightarrow> int" where
  "py_rfind s sub =
     (case filter (\<lambda>i. prefix sub (drop i s)) (rev [0 ..< Suc (length s)]) of
        [] \<Rightarrow> - 1
      | i # _ \<Rightarrow> int i)"

text \<open>\<open>s[:i]\<close>: a negative \<open>i\<close> counts from the end.\<close>

definition py_slice_to :: "string \<Rightarrow> int \<Rightarrow> string" where
  "py_slice_to s i =
     (if i < 0 then take (nat (int (length s) + i)) s else take (nat i) s)"

text \<open>\<open>max(x, *xs, key=f)\<close>: the first of the maximal elements.\<close>

fun py_max_by :: "('a \<Rightarrow> int) \<Rightarrow> 'a \<Rightarrow> 'a list \<Rightarrow> 'a" where
  "py_max_by f best [] = best"
| "py_max_by f best (x # xs) = py_max_by f (if f best < f x then x else best) xs"

section \<open>The parsed manifest, as the m3u8 library hands it over\<close>

text \<open>
  The m3u8 library is not part of the repository. Its constructor \<open>M3U8(text)\<close> is a
  parameter of the model, of type \<open>string \<Rightarrow> exn + m3u8\<close>; these records are the
  attributes the handlers read. Durations are seconds; the code only passes them on.
\<close>

record stream_info =
  si_resolution :: "(int \<times> int) option"
  si_name :: "string option"

record m3u8_playlist =
  stream_info :: stream_info
  uri :: string

record m3u8_segment =
  seg_uri :: string
  duration :: rat

record m3u8 =
  is_variant :: bool
  playlists :: "m3u8_playlist list"
  segments :: "m3u8_segment option list"

section \<open>Stream.parse\_playlist\<close>

text \<open>One value of the \<open>resolutions\<close> dictionary: \<open>{"framerate": {...}, "width": width}\<close>.\<close>

record variant =
  framerate :: "(int \<times> string) list"
  width :: int

type_synonym resolutions = "(int \<times> variant) list"

text \<open>
  The class \<open>Playlist\<close> (the HTTP session is not modelled as a field). Its attribute
  \<open>framerate\<close> is \<open>pl_framerate\<close> here, since \<open>framerate\<close> already names the dictionary
  of a variant.
\<close>

record playlist =
  url :: string
  base_url :: string
  resolution :: int
  pl_framerate :: int
  last_seq :: int

text \<open>The frame rate guessed from the variant's name.\<close>

definition detect_fr :: "m3u8_playlist \<Rightarrow> int" where
  "detect_fr p =
     (case si_name (stream_info p) of
        None \<Rightarrow> 30
      | Some n \<Rightarrow> if n \<noteq> [] \<and> py_contains ''60'' n then 60 else 30)"

text \<open>
  One round of \<open>for playlist in master.playlists\<close>. A variant without a resolution is
  skipped; otherwise the bucket of its width is created if needed and the URI is stored
  under the frame rate.
\<close>

definition add_playlist :: "resolutions \<Rightarrow> m3u8_playlist \<Rightarrow> exn + resolutions" where
  "add_playlist res p =
     (case si_resolution (stream_info p) of
        None \<Rightarrow> Inr res
      | Some (w, h) \<Rightarrow>
          (let fr = detect_fr p;
               res1 = (if map_of res w = None
                       then dict_set w \<lparr>framerate = [], width = w\<rparr> res
                       else res)
           in case map_of res1 w of
                None \<Rightarrow> Inl KeyError
              | Some v \<Rightarrow>
                  Inr (dict_set w (v\<lparr>framerate := dict_set fr (uri p) (framerate v)\<rparr>) res1)))"

fun build_resolutions :: "resolutions \<Rightarrow> m3u8_playlist list \<Rightarrow> exn + resolutions" where
  "build_resolutions res [] = Inr res"
| "build_resolutions res (p # ps) =
     (case add_playlist res p of
        Inl e \<Rightarrow> Inl e
      | Inr res' \<Rightarrow> build_resolutions res' ps)"

text \<open>Lines 94 to 102: the exact width, or the largest width below the request.\<close>

definition select_variant :: "resolutions \<Rightarrow> int \<Rightarrow> variant option" where
  "select_variant res r =
     (case map_of res r of
        Some v \<Rightarrow> Some v
      | None \<Rightarrow>
          (case filter (\<lambda>v. width v < r) (map snd res) of
             [] \<Rightarrow> None
           | c # cs \<Rightarrow> Some (py_max_by width c cs)))"

text \<open>
  Lines 107 to 112: \<open>.get(framerate)\<close>, and the first item of the bucket when the value
  is missing or an empty string (\<open>not playlist_url\<close>). \<open>next\<close> on an empty bucket raises.
\<close>

definition select_framerate :: "variant \<Rightarrow> int \<Rightarrow> exn + (int \<times> string)" where
  "select_framerate v f =
     (case map_of (framerate v) f of
        Some u \<Rightarrow>
          if u \<noteq> [] then Inr (f, u)
          else (case framerate v of [] \<Rightarrow> Inl StopIteration | kv # _ \<Rightarrow> Inr kv)
      | None \<Rightarrow>
          (case framerate v of [] \<Rightarrow> Inl StopIteration | kv # _ \<Rightarrow> Inr kv))"

text \<open>Line 114: \<open>hls_source[:hls_source.rfind("playlist.m3u8")]\<close>.\<close>

definition playlist_base_url :: "string \<Rightarrow> string" where
  "playlist_base_url hls_source = py_slice_to hls_source (py_rfind hls_source ''playlist.m3u8'')"

text \<open>
  The body of the \<open>try\<close> block of \<open>parse_playlist\<close>. \<open>M3U8\<close> and \<open>urljoin\<close> are the
  library functions; \<open>Inr None\<close> is \<open>return None\<close>.
\<close>

definition parse_playlist_try ::
  "(string \<Rightarrow> exn + m3u8) \<Rightarrow> (string \<Rightarrow> string \<Rightarrow> exn + string) \<Rightarrow>
     string \<Rightarrow> string \<Rightarrow> int \<Rightarrow> int \<Rightarrow> exn + playlist option" where
  "parse_playlist_try M3U8 urljoin hls_source m3u8_content r f =
     (case M3U8 m3u8_content of
        Inl e \<Rightarrow> Inl e
      | Inr master \<Rightarrow>
          if \<not> is_variant master then Inr None
          else (case build_resolutions [] (playlists master) of
                  Inl e \<Rightarrow> Inl e
                | Inr res \<Rightarrow>
                    (case select_variant res r of
                       None \<Rightarrow> Inr None
                     | Some v \<Rightarrow>
                         (case select_framerate v f of
                            Inl e \<Rightarrow> Inl e
                          | Inr (selected_framerate, playlist_url) \<Rightarrow>
                              (let b = playlist_base_url hls_source
                               in case urljoin b playlist_url of
                                    Inl e \<Rightarrow> Inl e
                                  | Inr u \<Rightarrow>
                                      Inr (Some \<lparr>url = u, base_url = b,
                                                 resolution = width v,
                                                 pl_framerate = selected_framerate,
                                                 last_seq = - 1\<rparr>))))))"

text \<open>
  \<open>except Exception\<close>: the exception is printed and \<open>None\<close> is returned. The result
  type has no exception left.
\<close>

definition parse_playlist ::
  "(string \<Rightarrow> exn + m3u8) \<Rightarrow> (string \<Rightarrow> string \<Rightarrow> exn + string) \<Rightarrow>
     string \<Rightarrow> string \<Rightarrow> int \<Rightarrow> int \<Rightarrow> playlist option" where
  "parse_playlist M3U8 urljoin hls_source m3u8_content r f =
     (case parse_playlist_try M3U8 urljoin hls_source m3u8_content r f of
        Inl e \<Rightarrow> None
      | Inr res \<Rightarrow> res)"

section \<open>Playlist.watch\_segments\<close>

text \<open>
  The effects of the loop, in program order: HTTP requests, calls of the handler, sleeps,
  the message printed by the outer \<open>except\<close>, and the assignments to \<open>self.last_seq\<close>.
  \<open>Handler c seg\<close> is the call \<open>handler(c, segment.duration)\<close> for the loop variable
  \<open>segment = seg\<close>.
\<close>

datatype event =
    Get string
  | Handler string m3u8_segment
  | Sleep rat
  | Print exn
  | Set_last_seq int

text \<open>
  What the loop calls and does not define. A request for a segment and a call of the
  handler may depend on everything that happened before, so both take the events so far;
  \<open>seg_get\<close> stands for \<open>session.get\<close> followed by \<open>raise_for_status\<close> and yields the
  response's content.
\<close>

record env =
  M3U8 :: "string \<Rightarrow> exn + m3u8"
  urljoin :: "string \<Rightarrow> string \<Rightarrow> exn + string"
  seg_get :: "event list \<Rightarrow> string \<Rightarrow> exn + string"
  handler :: "event list \<Rightarrow> string \<Rightarrow> rat \<Rightarrow> exn + unit"

text \<open>\<open>time.sleep(d)\<close> raises on a negative argument.\<close>

definition py_sleep :: "rat \<Rightarrow> event list \<Rightarrow> (exn + unit) \<times> event list" where
  "py_sleep d tr = (if d < 0 then (Inl ValueError, tr) else (Inr (), tr @ [Sleep d]))"

text \<open>Lines 158 to 161: the body of the inner \<open>try\<close>, up to the \<open>break\<close>.\<close>

definition fetch_once ::
  "env \<Rightarrow> playlist \<Rightarrow> m3u8_segment \<Rightarrow> event list \<Rightarrow> (exn + unit) \<times> event list" where
  "fetch_once E pl seg tr =
     (case urljoin E (base_url pl) (seg_uri seg) of
        Inl e \<Rightarrow> (Inl e, tr)
      | Inr segment_url \<Rightarrow>
          (case seg_get E tr segment_url of
             Inl e \<Rightarrow> (Inl e, tr @ [Get segment_url])
           | Inr content \<Rightarrow>
               (case handler E (tr @ [Get segment_url]) content (duration seg) of
                  Inl e \<Rightarrow> (Inl e, tr @ [Get segment_url, Handler content seg])
                | Inr _ \<Rightarrow> (Inr (), tr @ [Get segment_url, Handler content seg]))))"

text \<open>
  \<open>for attempt in range(3)\<close>, called with \<open>[0, 1, 2]\<close>: \<open>break\<close> after a good attempt,
  \<open>raise\<close> when attempt 2 fails, \<open>time.sleep(0.6)\<close> after the other failures.
\<close>

fun fetch_retry ::
  "env \<Rightarrow> playlist \<Rightarrow> m3u8_segment \<Rightarrow> nat list \<Rightarrow> event list \<Rightarrow> (exn + unit) \<times> event list" where
  "fetch_retry E pl seg [] tr = (Inr (), tr)"
| "fetch_retry E pl seg (attempt # rest) tr =
     (case fetch_once E pl seg tr of
        (Inr _, tr') \<Rightarrow> (Inr (), tr')
      | (Inl e, tr') \<Rightarrow>
          if attempt = 2 then (Inl e, tr')
          else fetch_retry E pl seg rest (tr' @ [Sleep (6 / 10)]))"

text \<open>
  \<open>for segment in media_playlist.segments\<close>. The state is the playlist object (for
  \<open>last_seq\<close>) and the events so far; an exception leaves the loop at once.
\<close>

fun for_segments ::
  "env \<Rightarrow> m3u8_segment option list \<Rightarrow> playlist \<times> event list \<Rightarrow>
     (exn + unit) \<times> playlist \<times> event list" where
  "for_segments E [] (pl, tr) = (Inr (), pl, tr)"
| "for_segments E (None # rest) (pl, tr) = for_segments E rest (pl, tr)"
| "for_segments E (Some seg # rest) (pl, tr) =
     (let seq = parse_segment_seq (seg_uri seg)
      in if seq = - 1 \<or> seq \<le> last_seq pl then for_segments E rest (pl, tr)
         else (let pl' = pl\<lparr>last_seq := seq\<rparr>
               in case fetch_retry E pl' seg [0, 1, 2] (tr @ [Set_last_seq seq]) of
                    (Inl e, tr') \<Rightarrow> (Inl e, pl', tr')
                  | (Inr _, tr') \<Rightarrow> for_segments E rest (pl', tr')))"

text \<open>
  The body of the outer \<open>try\<close>, lines 140 to 168. \<open>poll\<close> is what this round's
  \<open>session.get(self.url)\<close> and \<open>raise_for_status\<close> produce: an exception or the text.
\<close>

definition cycle_try ::
  "env \<Rightarrow> rat \<Rightarrow> exn + string \<Rightarrow> playlist \<times> event list \<Rightarrow>
     (exn + unit) \<times> playlist \<times> event list" where
  "cycle_try E interval poll s =
     (case s of (pl, tr) \<Rightarrow>
        (case poll of
           Inl e \<Rightarrow> (Inl e, pl, tr @ [Get (url pl)])
         | Inr text \<Rightarrow>
             (case M3U8 E text of
                Inl e \<Rightarrow> (Inl e, pl, tr @ [Get (url pl)])
              | Inr media_playlist \<Rightarrow>
                  (case for_segments E (segments media_playlist) (pl, tr @ [Get (url pl)]) of
                     (Inl e, pl', tr') \<Rightarrow> (Inl e, pl', tr')
                   | (Inr _, pl', tr') \<Rightarrow>
                       (case py_sleep interval tr' of
                          (Inl e, tr'') \<Rightarrow> (Inl e, pl', tr'')
                        | (Inr _, tr'') \<Rightarrow> (Inr (), pl', tr''))))))"

text \<open>One round of \<open>while True\<close>: the \<open>try\<close> and its \<open>except Exception\<close>.\<close>

definition cycle ::
  "env \<Rightarrow> rat \<Rightarrow> exn + string \<Rightarrow> playlist \<times> event list \<Rightarrow> playlist \<times> event list" where
  "cycle E interval poll s =
     (case cycle_try E interval poll s of
        (Inl e, pl', tr') \<Rightarrow> (pl', tr' @ [Print e, Sleep 5])
      | (Inr _, pl', tr') \<Rightarrow> (pl', tr'))"

text \<open>
  \<open>while True\<close>. \<open>polls i\<close> is the outcome of the request for the playlist in round
  \<open>i\<close>. The function returns \<open>Some\<close> if the loop is ever left; the loop has no
  \<open>break\<close> and no \<open>return\<close>.
\<close>

partial_function (option) watch_segments ::
  "env \<Rightarrow> rat \<Rightarrow> (nat \<Rightarrow> exn + string) \<Rightarrow> nat \<Rightarrow> playlist \<times> event list \<Rightarrow> unit option" where
  "watch_segments E interval polls i s =
     watch_segments E interval polls (Suc i) (cycle E interval (polls i) s)"

text \<open>The state after the first \<open>n\<close> rounds of the loop.\<close>

fun watch_rounds ::
  "env \<Rightarrow> rat \<Rightarrow> (nat \<Rightarrow> exn + string) \<Rightarrow> nat \<Rightarrow> playlist \<times> event list \<Rightarrow>
     playlist \<times> event list" where
  "watch_rounds E interval polls 0 s = s"
| "watch_rounds E interval polls (Suc n) s =
     cycle E interval (polls n) (watch_rounds E interval polls n s)"

section \<open>ChaturbateLiveStream.get\_cb\_play\_url\_list\<close>

text \<open>\<open>s.rsplit(c, 1)\<close>: split once, at the last separator.\<close>

definition py_rsplit1 :: "char \<Rightarrow> string \<Rightarrow> string list" where
  "py_rsplit1 c s =
     (if c \<in> set s
      then [rev (tl (dropWhile (\<lambda>x. x \<noteq> c) (rev s))), rev (takeWhile (\<lambda>x. x \<noteq> c) (rev s))]
      else [s])"

definition py_endswith :: "string \<Rightarrow> string \<Rightarrow> bool" where
  "py_endswith s suf = prefix (rev suf) (rev s)"

text \<open>
  \<open>re.compile(r'BANDWIDTH=(\d+)').findall(resp)\<close>: the digit groups of the matches, found
  from left to right without overlap.
\<close>

function bandwidth_findall :: "string \<Rightarrow> string list" where
  "bandwidth_findall [] = []"
| "bandwidth_findall (c # cs) =
     (if prefix ''BANDWIDTH='' (c # cs) \<and> takeWhile is_digit (drop 10 (c # cs)) \<noteq> []
      then takeWhile is_digit (drop 10 (c # cs))
             # bandwidth_findall (dropWhile is_digit (drop 10 (c # cs)))
      else bandwidth_findall cs)"
  by pat_completeness auto
termination
proof (relation "measure length")
  fix c :: char and cs :: string
  assume "prefix ''BANDWIDTH='' (c # cs) \<and> takeWhile is_digit (drop 10 (c # cs)) \<noteq> []"
  have "length (dropWhile is_digit (drop 10 (c # cs))) \<le> length (drop 10 (c # cs))"
    by (rule length_dropWhile_le)
  also have "\<dots> < length (c # cs)" by simp
  finally show "(dropWhile is_digit (drop 10 (c # cs)), c # cs) \<in> measure length" by simp
qed simp_all

text \<open>Lines 98 to 104: the playlist URLs collected from the lines of the response.\<close>

definition collect_urls :: "string \<Rightarrow> string \<Rightarrow> string list" where
  "collect_urls base resp =
     (let ls = py_split (CHR 0x0A) resp;
          chunk = map (\<lambda>i. base @ py_strip i) (filter (\<lambda>i. prefix ''chunklist_'' i) ls)
      in if chunk = []
         then map py_strip (filter (\<lambda>i. py_endswith (py_strip i) ''m3u8'') ls)
         else chunk)"

text \<open>
  Line 107: the dictionary comprehension over \<open>zip(bandwidth_list, play_url_list)\<close>; a
  URL that occurs twice keeps the later value. Each bandwidth is a run of digits matched
  by \<open>\d+\<close>, on which \<open>int\<close> returns \<open>digits_val\<close>.
\<close>

definition url_to_bandwidth :: "string list \<Rightarrow> string list \<Rightarrow> (string \<times> int) list" where
  "url_to_bandwidth bandwidth_list play_url_list =
     fold (\<lambda>(bandwidth, u) d. dict_set u (int (digits_val bandwidth)) d)
       (zip bandwidth_list play_url_list) []"

text \<open>
  Line 108: \<open>sorted(..., key=lambda url: d[url], reverse=True)\<close>. The keys are looked up
  first, and a URL that is not in the dictionary raises \<open>KeyError\<close>; the sort is stable.
\<close>

definition sorted_by_bandwidth :: "(string \<times> int) list \<Rightarrow> string list \<Rightarrow> exn + string list" where
  "sorted_by_bandwidth d urls =
     (if \<forall>u \<in> set urls. map_of d u \<noteq> None
      then Inr (sort_key (\<lambda>u. - the (map_of d u)) urls)
      else Inl KeyError)"

text \<open>
  The function, from the URL of the manifest and the text of the response (the request
  itself is outside the model).
\<close>

definition get_cb_play_url_list :: "string \<Rightarrow> string \<Rightarrow> exn + string list" where
  "get_cb_play_url_list m3u8_url resp =
     (case py_rsplit1 (CHR ''/'') m3u8_url of
        [] \<Rightarrow> Inl IndexError
      | h # _ \<Rightarrow>
          (let base = h @ ''/'';
               play_url_list = collect_urls base resp;
               bandwidth_list = bandwidth_findall resp
           in sorted_by_bandwidth (url_to_bandwidth bandwidth_list play_url_list) play_url_list))"

section \<open>Notions used to state the properties of parse\_playlist\<close>

text \<open>The width of a variant, \<open>playlist.stream_info.resolution[0]\<close>, when it has a resolution.\<close>

definition pl_width :: "m3u8_playlist \<Rightarrow> int option" where
  "pl_width p = map_option fst (si_resolution (stream_info p))"

text \<open>
  The (frame rate, URI) pairs that the loop stores for the width \<open>w\<close>, in the order of the
  manifest.
\<close>

definition bucket_entries :: "m3u8_playlist list \<Rightarrow> int \<Rightarrow> (int \<times> string) list" where
  "bucket_entries ps w = map (\<lambda>p. (detect_fr p, uri p)) (filter (\<lambda>p. pl_width p = Some w) ps)"

text \<open>The dictionary \<open>d\<close> after the assignments \<open>d[k] = v\<close> for the pairs of \<open>es\<close>, in order.\<close>

definition dict_of :: "('k \<times> 'v) list \<Rightarrow> ('k \<times> 'v) list \<Rightarrow> ('k \<times> 'v) list" where
  "dict_of d es = fold (\<lambda>(k, v) d. dict_set k v d) es d"

text \<open>The frame rate dictionary stored under a width (empty when the width is no key).\<close>

definition bucket :: "resolutions \<Rightarrow> int \<Rightarrow> (int \<times> string) list" where
  "bucket res w = (case map_of res w of None \<Rightarrow> [] | Some v \<Rightarrow> framerate v)"

text \<open>The keys of \<open>resolutions\<close> are distinct and each value records its own key.\<close>

definition res_wf :: "resolutions \<Rightarrow> bool" where
  "res_wf res = (distinct (map fst res) \<and> (\<forall>kv \<in> set res. width (snd kv) = fst kv))"

section \<open>Notions used to state the properties of watch\_segments\<close>

fun is_get :: "event \<Rightarrow> bool" where
  "is_get (Get u) = True"
| "is_get e = False"

fun is_handler :: "event \<Rightarrow> bool" where
  "is_handler (Handler c seg) = True"
| "is_handler e = False"


text \<open>The sequence number the loop reads off a segment.\<close>

definition seq_of :: "m3u8_segment \<Rightarrow> int" where
  "seq_of seg = parse_segment_seq (seg_uri seg)"





section \<open>Properties of the sequence numbers\<close>









lemmas py_int_eval = py_int_def py_strip_def py_isspace_def is_digit_def digits_val_def digit_val_def



section \<open>Dictionaries and the resolutions table\<close>

lemma map_of_dict_set: "map_of (dict_set k v d) = (map_of d)(k \<mapsto> v)"
  by (induction d) (auto simp: fun_eq_iff)

lemma keys_dict_set: "fst ` set (dict_set k v d) = insert k (fst ` set d)"
  by (induction d) auto

lemma set_dict_set: "set (dict_set k v d) \<subseteq> insert (k, v) (set d)"
  by (induction d) auto

lemma distinct_dict_set: "distinct (map fst d) \<Longrightarrow> distinct (map fst (dict_set k v d))"
  by (induction d) (auto simp: keys_dict_set)

lemma dict_set_not_Nil: "dict_set k v d \<noteq> []"
  by (cases d) auto


lemma dict_set_twice: "dict_set k v (dict_set k v' d) = dict_set k v d"
  by (induction d) auto

lemma res_wf_dict_set: "res_wf res \<Longrightarrow> width v = w \<Longrightarrow> res_wf (dict_set w v res)"
  unfolding res_wf_def using set_dict_set [of w v res]
  by (auto simp: distinct_dict_set)

lemma add_playlist_eq:
  "add_playlist res p =
     Inr (case pl_width p of
            None \<Rightarrow> res
          | Some w \<Rightarrow>
              dict_set w \<lparr>framerate = dict_set (detect_fr p) (uri p) (bucket res w),
                          width = (case map_of res w of None \<Rightarrow> w | Some v \<Rightarrow> width v)\<rparr> res)"
proof (cases "si_resolution (stream_info p)")
  case None
  then show ?thesis by (simp add: add_playlist_def pl_width_def)
next
  case (Some wh)
  obtain w h where wh: "wh = (w, h)" by (cases wh)
  show ?thesis
  proof (cases "map_of res w")
    case None
    with Some wh show ?thesis
      by (simp add: add_playlist_def pl_width_def bucket_def map_of_dict_set dict_set_twice)
  next
    case (Some v)
    have eq: "v\<lparr>framerate := dict_set (detect_fr p) (uri p) (framerate v)\<rparr>
            = \<lparr>framerate = dict_set (detect_fr p) (uri p) (framerate v), width = width v\<rparr>"
      by (cases v) simp
    from Some \<open>si_resolution (stream_info p) = Some wh\<close> wh show ?thesis
      by (simp add: add_playlist_def pl_width_def bucket_def eq)
  qed
qed

lemma res_wf_width: "res_wf res \<Longrightarrow> map_of res w = Some v \<Longrightarrow> width v = w"
  unfolding res_wf_def by (auto dest!: map_of_SomeD)

lemma add_playlist_wf:
  assumes "res_wf res" and "add_playlist res p = Inr res'"
  shows "res_wf res'"
proof (cases "pl_width p")
  case None
  with assms show ?thesis by (simp add: add_playlist_eq)
next
  case (Some w)
  have "(case map_of res w of None \<Rightarrow> w | Some v \<Rightarrow> width v) = w"
    using assms(1) by (auto split: option.splits dest: res_wf_width)
  with Some assms show ?thesis
    by (auto simp: add_playlist_eq intro!: res_wf_dict_set)
qed

lemma add_playlist_bucket:
  assumes "add_playlist res p = Inr res'"
  shows "bucket res' w =
           (if pl_width p = Some w then dict_set (detect_fr p) (uri p) (bucket res w)
            else bucket res w)"
  using assms
  by (auto simp: add_playlist_eq bucket_def map_of_dict_set split: option.splits)

lemma add_playlist_keys:
  assumes "add_playlist res p = Inr res'"
  shows "fst ` set res' = fst ` set res \<union> set_option (pl_width p)"
proof (cases "pl_width p")
  case None
  with assms show ?thesis by (simp add: add_playlist_eq)
next
  case (Some w)
  with assms have "res' = dict_set w \<lparr>framerate = dict_set (detect_fr p) (uri p) (bucket res w),
                          width = (case map_of res w of None \<Rightarrow> w | Some v \<Rightarrow> width v)\<rparr> res"
    by (simp add: add_playlist_eq)
  then have "fst ` set res' = insert w (fst ` set res)"
    by (simp only: keys_dict_set)
  with Some show ?thesis by simp
qed

lemma build_resolutions_Inr: "\<exists>res'. build_resolutions res ps = Inr res'"
  by (induction ps arbitrary: res) (auto simp: add_playlist_eq)

lemma build_resolutions_wf:
  "res_wf res \<Longrightarrow> build_resolutions res ps = Inr res' \<Longrightarrow> res_wf res'"
proof (induction ps arbitrary: res)
  case Nil then show ?case by simp
next
  case (Cons p ps)
  obtain res1 where r1: "add_playlist res p = Inr res1" by (simp add: add_playlist_eq)
  with Cons.prems have "res_wf res1" by (auto intro: add_playlist_wf)
  with Cons r1 show ?case by simp
qed

lemma build_resolutions_bucket:
  "build_resolutions res ps = Inr res' \<Longrightarrow>
     bucket res' w = dict_of (bucket res w) (bucket_entries ps w)"
proof (induction ps arbitrary: res)
  case Nil then show ?case by (simp add: dict_of_def bucket_entries_def)
next
  case (Cons p ps)
  obtain res1 where r1: "add_playlist res p = Inr res1" by (simp add: add_playlist_eq)
  with Cons.prems have "build_resolutions res1 ps = Inr res'" by simp
  then have "bucket res' w = dict_of (bucket res1 w) (bucket_entries ps w)" by (rule Cons.IH)
  then show ?case
    by (simp add: add_playlist_bucket [OF r1] dict_of_def bucket_entries_def)
qed

lemma build_resolutions_keys:
  "build_resolutions res ps = Inr res' \<Longrightarrow>
     fst ` set res' = fst ` set res \<union> {w. \<exists>p \<in> set ps. pl_width p = Some w}"
proof (induction ps arbitrary: res)
  case Nil then show ?case by simp
next
  case (Cons p ps)
  obtain res1 where r1: "add_playlist res p = Inr res1" by (simp add: add_playlist_eq)
  with Cons.prems have "build_resolutions res1 ps = Inr res'" by simp
  then have "fst ` set res' = fst ` set res1 \<union> {w. \<exists>p \<in> set ps. pl_width p = Some w}"
    by (rule Cons.IH)
  then show ?case using add_playlist_keys [OF r1] by auto
qed

lemma py_max_by_in: "py_max_by f b xs \<in> set (b # xs)"
  by (induction xs arbitrary: b) auto


lemma res_wf_map_of: "res_wf res \<Longrightarrow> (k, v) \<in> set res \<Longrightarrow> map_of res k = Some v"
  unfolding res_wf_def by simp


lemma select_variant_none:
  assumes "map_of res r = None" and "\<forall>k \<in> fst ` set res. \<not> k < r" and "res_wf res"
  shows "select_variant res r = None"
proof -
  have "filter (\<lambda>v. width v < r) (map snd res) = []"
    using assms(2,3) unfolding res_wf_def by (auto simp: filter_empty_conv)
  with assms(1) show ?thesis by (simp add: select_variant_def)
qed



lemma dict_of_not_Nil: "d \<noteq> [] \<or> es \<noteq> [] \<Longrightarrow> dict_of d es \<noteq> []"
proof (induction es arbitrary: d)
  case Nil then show ?case by (simp add: dict_of_def)
next
  case (Cons e es)
  obtain k v where e: "e = (k, v)" by (cases e)
  have "dict_of (dict_set k v d) es \<noteq> []"
    by (rule Cons.IH) (simp add: dict_set_not_Nil)
  with e show ?case by (simp add: dict_of_def)
qed



lemma select_framerate_eq:
  "framerate v \<noteq> [] \<Longrightarrow>
   select_framerate v f =
     Inr (case map_of (framerate v) f of
            Some u \<Rightarrow> if u \<noteq> [] then (f, u) else hd (framerate v)
          | None \<Rightarrow> hd (framerate v))"
  by (cases "framerate v") (auto simp: select_framerate_def split: option.splits)

lemma select_framerate_in:
  "framerate v \<noteq> [] \<Longrightarrow> select_framerate v f = Inr e \<Longrightarrow> e \<in> set (framerate v)"
  by (cases "framerate v") (auto simp: select_framerate_eq split: option.splits if_splits dest: map_of_SomeD)

section \<open>Properties of parse\_playlist\<close>

lemma res_wf_Nil: "res_wf []"
  by (simp add: res_wf_def)

lemma bucket_Nil: "bucket [] w = []"
  by (simp add: bucket_def)

lemma bucket_entries_Nil_iff:
  "bucket_entries ps w = [] \<longleftrightarrow> \<not> (\<exists>p \<in> set ps. pl_width p = Some w)"
  by (auto simp: bucket_entries_def filter_empty_conv)

text \<open>What \<open>parse_playlist\<close> returns once a variant is selected.\<close>

lemma parse_playlist_selected:
  assumes m: "M doc = Inr master" and var: "is_variant master"
    and res: "build_resolutions [] (playlists master) = Inr res"
    and sel: "select_variant res r = Some v" and look: "map_of res (width v) = Some v"
  shows "framerate v = dict_of [] (bucket_entries (playlists master) (width v))
         \<and> framerate v \<noteq> []
         \<and> (\<exists>fr u. select_framerate v f = Inr (fr, u) \<and> (fr, u) \<in> set (framerate v)
              \<and> parse_playlist M J src doc r f =
                  (case J (playlist_base_url src) u of
                     Inl e \<Rightarrow> None
                   | Inr x \<Rightarrow> Some \<lparr>url = x, base_url = playlist_base_url src,
                                     resolution = width v, pl_framerate = fr,
                                     last_seq = - 1\<rparr>))"
proof -
  let ?ps = "playlists master"
  have fr: "framerate v = dict_of [] (bucket_entries ?ps (width v))"
    using build_resolutions_bucket [OF res, of "width v"] look
    by (simp add: bucket_def)
  have "width v \<in> fst ` set res" using look by (auto dest!: map_of_SomeD intro: rev_image_eqI)
  then have "\<exists>p \<in> set ?ps. pl_width p = Some (width v)"
    using build_resolutions_keys [OF res] by simp
  then have "bucket_entries ?ps (width v) \<noteq> []" by (simp add: bucket_entries_Nil_iff)
  then have ne: "framerate v \<noteq> []" using fr by (simp add: dict_of_not_Nil)
  obtain e where "select_framerate v f = Inr e"
    using select_framerate_eq [OF ne, of f] by blast
  moreover obtain fr' u where "e = (fr', u)" by (cases e)
  ultimately have sf: "select_framerate v f = Inr (fr', u)" by simp
  have mem: "(fr', u) \<in> set (framerate v)" using ne sf by (rule select_framerate_in)
  have "parse_playlist M J src doc r f =
          (case J (playlist_base_url src) u of
             Inl e \<Rightarrow> None
           | Inr x \<Rightarrow> Some \<lparr>url = x, base_url = playlist_base_url src,
                             resolution = width v, pl_framerate = fr', last_seq = - 1\<rparr>)"
    using m var res sel sf
    by (simp add: parse_playlist_def parse_playlist_try_def split: sum.splits)
  with fr ne sf mem show ?thesis by blast
qed

lemma parse_playlist_not_selected:
  assumes m: "M doc = Inr master"
    and res: "build_resolutions [] (playlists master) = Inr res"
    and sel: "select_variant res r = None"
  shows "parse_playlist M J src doc r f = None"
  using assms by (simp add: parse_playlist_def parse_playlist_try_def)





lemma select_variant_lookup:
  assumes wf: "res_wf res" and sel: "select_variant res r = Some v"
  shows "map_of res (width v) = Some v"
proof (cases "map_of res r")
  case (Some v')
  with sel have "v' = v" by (simp add: select_variant_def)
  with Some wf show ?thesis using res_wf_width by fastforce
next
  case None
  let ?cands = "filter (\<lambda>v. width v < r) (map snd res)"
  from None sel obtain c cs where cands: "?cands = c # cs" and v: "v = py_max_by width c cs"
    by (auto simp: select_variant_def split: list.splits)
  have "v \<in> set ?cands" using py_max_by_in [of width c cs] cands v by simp
  then obtain k where "(k, v) \<in> set res" by force
  moreover from this wf have "width v = k" unfolding res_wf_def by force
  ultimately show ?thesis using wf by (simp add: res_wf_map_of)
qed




text \<open>
  Claim C9. \<open>parse_playlist\<close> returns \<open>None\<close> when the manifest cannot be parsed, when it
  is not a master manifest, when no variant has a resolution, and when every width is above
  the target. An exception raised in the body (only the parser and \<open>urljoin\<close> can raise
  one) is turned into \<open>None\<close> as well: the function has no exceptional result.
\<close>

theorem parse_playlist_unavailable:
  "(\<forall>e. M doc = Inl e \<longrightarrow> parse_playlist M J src doc r f = None)
   \<and> (\<forall>m. M doc = Inr m \<and> \<not> is_variant m \<longrightarrow> parse_playlist M J src doc r f = None)
   \<and> (\<forall>m. M doc = Inr m \<and> (\<forall>p \<in> set (playlists m). si_resolution (stream_info p) = None)
          \<longrightarrow> parse_playlist M J src doc r f = None)
   \<and> (\<forall>m. M doc = Inr m \<and> (\<forall>p \<in> set (playlists m). \<forall>w. pl_width p = Some w \<longrightarrow> r < w)
          \<longrightarrow> parse_playlist M J src doc r f = None)
   \<and> (\<forall>e. parse_playlist_try M J src doc r f = Inl e
          \<longrightarrow> parse_playlist M J src doc r f = None
              \<and> (M doc = Inl e \<or> (\<exists>b u. J b u = Inl e)))"
proof -
  have none: "parse_playlist M J src doc r f = None"
    if m: "M doc = Inr m" and far: "\<forall>p \<in> set (playlists m). \<forall>w. pl_width p = Some w \<longrightarrow> r < w"
    for m
  proof -
    obtain res where res: "build_resolutions [] (playlists m) = Inr res"
      using build_resolutions_Inr by blast
    have wf: "res_wf res" using res_wf_Nil res by (rule build_resolutions_wf)
    have keys: "fst ` set res = {w. \<exists>p \<in> set (playlists m). pl_width p = Some w}"
      using build_resolutions_keys [OF res] by simp
    with far have above: "\<forall>k \<in> fst ` set res. r < k" by blast
    then have "r \<notin> fst ` set res" by auto
    then have "map_of res r = None" by (metis map_of_eq_None_iff)
    moreover from above have "\<forall>k \<in> fst ` set res. \<not> k < r" by auto
    ultimately have "select_variant res r = None" using wf by (rule select_variant_none)
    with m res show ?thesis by (rule parse_playlist_not_selected)
  qed
  have raised: "M doc = Inl e \<or> (\<exists>b u. J b u = Inl e)"
    if "parse_playlist_try M J src doc r f = Inl e" for e
  proof (cases "M doc")
    case (Inl e')
    with that show ?thesis by (simp add: parse_playlist_try_def)
  next
    case (Inr m)
    obtain res where res: "build_resolutions [] (playlists m) = Inr res"
      using build_resolutions_Inr by blast
    have wf: "res_wf res" using res_wf_Nil res by (rule build_resolutions_wf)
    from that Inr res obtain v where var: "is_variant m" and sel: "select_variant res r = Some v"
      by (auto simp: parse_playlist_try_def split: if_splits option.splits)
    have look: "map_of res (width v) = Some v" using wf sel by (rule select_variant_lookup)
    from parse_playlist_selected [where M = M and doc = doc and f = f and J = J and src = src,
        OF Inr var res sel look]
    obtain fr u where sf: "select_framerate v f = Inr (fr, u)" by blast
    from that Inr res var sel sf have "J (playlist_base_url src) u = Inl e"
      by (auto simp: parse_playlist_try_def Let_def split: sum.splits)
    then show ?thesis by blast
  qed
  show ?thesis
  proof (intro conjI allI impI)
    fix e assume "M doc = Inl e"
    then show "parse_playlist M J src doc r f = None"
      by (simp add: parse_playlist_def parse_playlist_try_def)
  next
    fix m assume "M doc = Inr m \<and> \<not> is_variant m"
    then show "parse_playlist M J src doc r f = None"
      by (simp add: parse_playlist_def parse_playlist_try_def)
  next
    fix m
    assume "M doc = Inr m \<and> (\<forall>p \<in> set (playlists m). si_resolution (stream_info p) = None)"
    then show "parse_playlist M J src doc r f = None"
      using none [of m] by (simp add: pl_width_def)
  next
    fix m
    assume "M doc = Inr m \<and> (\<forall>p \<in> set (playlists m). \<forall>w. pl_width p = Some w \<longrightarrow> r < w)"
    then show "parse_playlist M J src doc r f = None"
      using none [of m] by blast
  next
    fix e assume "parse_playlist_try M J src doc r f = Inl e"
    then show "parse_playlist M J src doc r f = None"
      by (simp add: parse_playlist_def)
  next
    fix e assume "parse_playlist_try M J src doc r f = Inl e"
    then show "M doc = Inl e \<or> (\<exists>b u. J b u = Inl e)" by (rule raised)
  qed
qed

theorem parse_playlist_unavailable_witness:
  "parse_playlist (\<lambda>_. Inl ParseError) (\<lambda>b u. Inr (b @ u))
       ''https://h/live/playlist.m3u8'' ''not a manifest'' 1080 30 = None
   \<and> parse_playlist
       (\<lambda>_. Inr \<lparr>is_variant = False, playlists = [], segments = []\<rparr>) (\<lambda>b u. Inr (b @ u))
       ''https://h/live/playlist.m3u8'' ''#EXTM3U'' 1080 30 = None
   \<and> parse_playlist
       (\<lambda>_. Inr \<lparr>is_variant = True,
                  playlists = [\<lparr>stream_info = \<lparr>si_resolution = None, si_name = Some ''audio''\<rparr>,
                                 uri = ''a.m3u8''\<rparr>],
                  segments = []\<rparr>)
       (\<lambda>b u. Inr (b @ u)) ''https://h/live/playlist.m3u8'' ''#EXTM3U'' 1080 30 = None
   \<and> parse_playlist
       (\<lambda>_. Inr \<lparr>is_variant = True,
                  playlists = [\<lparr>stream_info = \<lparr>si_resolution = Some (1920, 1080), si_name = None\<rparr>,
                                 uri = ''hi.m3u8''\<rparr>],
                  segments = []\<rparr>)
       (\<lambda>b u. Inr (b @ u)) ''https://h/live/playlist.m3u8'' ''#EXTM3U'' 720 30 = None
   \<and> parse_playlist
       (\<lambda>_. Inr \<lparr>is_variant = True,
                  playlists = [\<lparr>stream_info = \<lparr>si_resolution = Some (1920, 1080), si_name = None\<rparr>,
                                 uri = ''hi.m3u8''\<rparr>],
                  segments = []\<rparr>)
       (\<lambda>b u. Inl ValueError) ''https://h/live/playlist.m3u8'' ''#EXTM3U'' 1920 30 = None"
proof -
  let ?J = "\<lambda>b u. Inr (b @ u) :: exn + string"
  let ?src = "''https://h/live/playlist.m3u8''"
  let ?hi = "\<lparr>stream_info = \<lparr>si_resolution = Some (1920, 1080), si_name = None\<rparr>,
              uri = ''hi.m3u8''\<rparr>"
  let ?audio = "\<lparr>stream_info = \<lparr>si_resolution = None, si_name = Some ''audio''\<rparr>,
                 uri = ''a.m3u8''\<rparr>"
  let ?M1 = "\<lambda>_::string. Inl ParseError :: exn + m3u8"
  let ?m2 = "\<lparr>is_variant = False, playlists = [], segments = []\<rparr>"
  let ?m3 = "\<lparr>is_variant = True, playlists = [?audio], segments = []\<rparr>"
  let ?m4 = "\<lparr>is_variant = True, playlists = [?hi], segments = []\<rparr>"
  have 1: "parse_playlist ?M1 ?J ?src ''not a manifest'' 1080 30 = None"
    using parse_playlist_unavailable [of ?M1 "''not a manifest''" ?J ?src 1080 30] by simp
  have 2: "parse_playlist (\<lambda>_. Inr ?m2) ?J ?src ''#EXTM3U'' 1080 30 = None"
    using parse_playlist_unavailable [of "\<lambda>_. Inr ?m2" "''#EXTM3U''" ?J ?src 1080 30] by simp
  have 3: "parse_playlist (\<lambda>_. Inr ?m3) ?J ?src ''#EXTM3U'' 1080 30 = None"
    using parse_playlist_unavailable [of "\<lambda>_. Inr ?m3" "''#EXTM3U''" ?J ?src 1080 30] by simp
  have 4: "parse_playlist (\<lambda>_. Inr ?m4) ?J ?src ''#EXTM3U'' 720 30 = None"
    using parse_playlist_unavailable [of "\<lambda>_. Inr ?m4" "''#EXTM3U''" ?J ?src 720 30]
    by (simp add: pl_width_def)
  have "parse_playlist_try (\<lambda>_. Inr ?m4) (\<lambda>b u. Inl ValueError) ?src ''#EXTM3U'' 1920 30
          = Inl ValueError"
    by (simp add: parse_playlist_try_def add_playlist_def detect_fr_def select_variant_def
        select_framerate_def)
  then have 5: "parse_playlist (\<lambda>_. Inr ?m4) (\<lambda>b u. Inl ValueError) ?src ''#EXTM3U'' 1920 30 = None"
    using parse_playlist_unavailable
      [of "\<lambda>_. Inr ?m4" "''#EXTM3U''" "\<lambda>b u. Inl ValueError" ?src 1920 30]
    by blast
  from 1 2 3 4 5 show ?thesis by blast
qed







section \<open>Properties of get\_cb\_play\_url\_list\<close>

text \<open>
  The bandwidths are non-empty runs of digits, and on such a string \<open>int\<close> does not raise
  and returns \<open>digits_val\<close>: this is the \<open>int(bandwidth)\<close> of the dictionary.
\<close>

lemma digit_not_space: "is_digit c \<Longrightarrow> \<not> py_isspace c"
  by (auto simp: is_digit_def py_isspace_def)

lemma digit_not_sign:
  "is_digit c \<Longrightarrow> c \<noteq> CHR ''+'' \<and> c \<noteq> CHR ''-'' \<and> c \<noteq> CHR ''_''"
  by (auto simp: is_digit_def)

lemma int_body_ok_digits: "ds \<noteq> [] \<Longrightarrow> \<forall>c \<in> set ds. is_digit c \<Longrightarrow> int_body_ok ds"
  by (induction ds rule: int_body_ok.induct) (auto simp: digit_not_sign)

lemma py_strip_digits:
  assumes "ds \<noteq> []" and "\<forall>c \<in> set ds. is_digit c"
  shows "py_strip ds = ds"
proof -
  from assms have "\<not> py_isspace (hd ds)" by (simp add: digit_not_space)
  with assms(1) have 1: "dropWhile py_isspace ds = ds" by (cases ds) auto
  from assms have "\<not> py_isspace (last ds)" by (simp add: digit_not_space)
  with assms(1) have "\<not> py_isspace (hd (rev ds))" by (simp add: hd_rev)
  with assms(1) have 2: "dropWhile py_isspace (rev ds) = rev ds" by (cases "rev ds") auto
  from 1 2 show ?thesis by (simp add: py_strip_def)
qed

lemma py_int_digits:
  assumes "ds \<noteq> []" and "\<forall>c \<in> set ds. is_digit c"
  shows "py_int ds = Inr (int (digits_val ds))"
proof -
  obtain c cs where ds: "ds = c # cs" using assms(1) by (cases ds) auto
  with assms(2) have "c \<noteq> CHR ''+''" "c \<noteq> CHR ''-''" using digit_not_sign by auto
  moreover have "filter is_digit ds = ds" using assms(2) by (simp add: filter_id_conv)
  ultimately show ?thesis
    using int_body_ok_digits [OF assms] py_strip_digits [OF assms] ds
    by (simp add: py_int_def)
qed

lemma bandwidth_findall_digits:
  "b \<in> set (bandwidth_findall s) \<Longrightarrow> b \<noteq> [] \<and> (\<forall>c \<in> set b. is_digit c)"
proof (induction s rule: bandwidth_findall.induct)
  case 1
  then show ?case by simp
next
  case (2 c cs)
  let ?ds = "takeWhile is_digit (drop 10 (c # cs))"
  show ?case
  proof (cases "prefix ''BANDWIDTH='' (c # cs) \<and> ?ds \<noteq> []")
    case True
    then have "bandwidth_findall (c # cs)
                 = ?ds # bandwidth_findall (dropWhile is_digit (drop 10 (c # cs)))"
      by (simp only: bandwidth_findall.simps if_True simp_thms)
    with "2.prems" consider "b = ?ds"
      | "b \<in> set (bandwidth_findall (dropWhile is_digit (drop 10 (c # cs))))"
      by (auto simp only: set_simps insert_iff)
    then show ?thesis
    proof cases
      case 1
      have all: "\<forall>x \<in> set ?ds. is_digit x" by (auto dest: set_takeWhileD)
      from True have ne: "?ds \<noteq> []" by (rule conjunct2)
      show ?thesis unfolding 1 by (rule conjI [OF ne all])
    next
      case 2
      with "2.IH"(1) [OF True] show ?thesis by blast
    qed
  next
    case False
    then have "bandwidth_findall (c # cs) = bandwidth_findall cs"
      by (simp only: bandwidth_findall.simps if_False simp_thms)
    with "2.prems" have "b \<in> set (bandwidth_findall cs)" by (simp only:)
    with "2.IH"(2) [OF False] show ?thesis by blast
  qed
qed

lemma py_rsplit1_not_Nil: "py_rsplit1 c s \<noteq> []"
  by (simp add: py_rsplit1_def)

lemma url_to_bandwidth_fold_keys:
  "fst ` set (fold (\<lambda>(bandwidth, u) d. dict_set u (int (digits_val bandwidth)) d) zs d)
     = fst ` set d \<union> snd ` set zs"
proof (induction zs arbitrary: d)
  case Nil then show ?case by simp
next
  case (Cons z zs)
  obtain b u where z: "z = (b, u)" by (cases z)
  show ?case by (simp add: z Cons.IH keys_dict_set)
qed

lemma url_to_bandwidth_keys:
  "fst ` set (url_to_bandwidth bws urls) = set (take (length bws) urls)"
proof -
  have "snd ` set (zip bws urls) = set (map snd (zip bws urls))" by simp
  also have "\<dots> = set (take (min (length bws) (length urls)) urls)"
    by (simp only: map_snd_zip_take)
  also have "\<dots> = set (take (length bws) urls)" by (simp add: min_def)
  finally show ?thesis by (simp add: url_to_bandwidth_def url_to_bandwidth_fold_keys)
qed

lemma url_to_bandwidth_fold_map_of:
  "map_of (fold (\<lambda>(bandwidth, u) d. dict_set u (int (digits_val bandwidth)) d) zs d)
     = map_of d ++ map_of (rev (map (\<lambda>(bandwidth, u). (u, int (digits_val bandwidth))) zs))"
proof (induction zs arbitrary: d)
  case Nil then show ?case by simp
next
  case (Cons z zs)
  obtain b u where z: "z = (b, u)" by (cases z)
  show ?case by (simp add: z Cons.IH map_of_dict_set fun_eq_iff map_add_def split: option.splits)
qed

lemma map_of_rev_nth:
  "i < length xs \<Longrightarrow> (\<forall>j. i < j \<and> j < length xs \<longrightarrow> fst (xs ! j) \<noteq> fst (xs ! i))
     \<Longrightarrow> map_of (rev xs) (fst (xs ! i)) = Some (snd (xs ! i))"
proof (induction xs rule: rev_induct)
  case Nil then show ?case by simp
next
  case (snoc y ys)
  show ?case
  proof (cases "i = length ys")
    case True
    then show ?thesis by simp
  next
    case False
    with snoc.prems(1) have i: "i < length ys" by simp
    from snoc.prems(2) i have "fst y \<noteq> fst (ys ! i)"
      by (auto simp: nth_append dest: spec [where x = "length ys"])
    moreover have "\<forall>j. i < j \<and> j < length ys \<longrightarrow> fst (ys ! j) \<noteq> fst (ys ! i)"
    proof (intro allI impI)
      fix j assume j: "i < j \<and> j < length ys"
      with snoc.prems(2) have "fst ((ys @ [y]) ! j) \<noteq> fst ((ys @ [y]) ! i)" by simp
      with i j show "fst (ys ! j) \<noteq> fst (ys ! i)" by (simp add: nth_append)
    qed
    ultimately show ?thesis using snoc.IH [OF i] i by (simp add: nth_append)
  qed
qed

lemma url_to_bandwidth_nth:
  assumes i: "i < length bws" "i < length urls"
    and last: "\<forall>j. i < j \<and> j < length bws \<and> j < length urls \<longrightarrow> urls ! j \<noteq> urls ! i"
  shows "map_of (url_to_bandwidth bws urls) (urls ! i) = Some (int (digits_val (bws ! i)))"
proof -
  let ?xs = "map (\<lambda>(bandwidth, u). (u, int (digits_val bandwidth))) (zip bws urls)"
  have len: "i < length ?xs" using i by simp
  have nth: "?xs ! j = (urls ! j, int (digits_val (bws ! j)))" if "j < length ?xs" for j
    using that by simp
  have "\<forall>j. i < j \<and> j < length ?xs \<longrightarrow> fst (?xs ! j) \<noteq> fst (?xs ! i)"
    using last i by (simp add: nth)
  from map_of_rev_nth [OF len this] nth [OF len]
  have "map_of (rev ?xs) (urls ! i) = Some (int (digits_val (bws ! i)))" by simp
  then show ?thesis
    by (simp add: url_to_bandwidth_def url_to_bandwidth_fold_map_of)
qed

lemma sorted_by_bandwidth_Inr_iff:
  "(\<exists>ys. sorted_by_bandwidth d urls = Inr ys) \<longleftrightarrow> set urls \<subseteq> fst ` set d"
proof -
  have "(\<forall>u \<in> set urls. map_of d u \<noteq> None) \<longleftrightarrow> set urls \<subseteq> fst ` set d"
    by (auto simp: map_of_eq_None_iff)
  then show ?thesis by (auto simp: sorted_by_bandwidth_def)
qed

lemma get_cb_play_url_list_eq:
  "get_cb_play_url_list m resp =
     sorted_by_bandwidth
       (url_to_bandwidth (bandwidth_findall resp)
          (collect_urls (hd (py_rsplit1 (CHR ''/'') m) @ ''/'') resp))
       (collect_urls (hd (py_rsplit1 (CHR ''/'') m) @ ''/'') resp)"
  by (cases "py_rsplit1 (CHR ''/'') m")
     (simp_all add: get_cb_play_url_list_def py_rsplit1_not_Nil Let_def)

lemma sorted_by_bandwidth_cases:
  "sorted_by_bandwidth d urls = Inl KeyError \<or> (\<exists>ys. sorted_by_bandwidth d urls = Inr ys)"
  by (simp add: sorted_by_bandwidth_def)

text \<open>
  Claim C10. The dictionary of bandwidths is the positional zip of the \<open>BANDWIDTH\<close>
  matches of the whole response with the collected URLs: the i-th URL gets the i-th match
  (unless the same URL is listed again later), and the keys are the first \<open>length bws\<close>
  URLs. The function returns a list exactly when every collected URL is among those keys,
  and raises \<open>KeyError\<close> otherwise; a response with fewer \<open>BANDWIDTH\<close> attributes than
  URLs that raises \<open>KeyError\<close> exists.
\<close>

theorem get_cb_play_url_list_pairing:
  "let urls = collect_urls (hd (py_rsplit1 (CHR ''/'') m) @ ''/'') resp;
       bws = bandwidth_findall resp;
       d = url_to_bandwidth bws urls
   in get_cb_play_url_list m resp = sorted_by_bandwidth d urls
      \<and> (\<forall>i. i < length bws \<and> i < length urls
               \<and> (\<forall>j. i < j \<and> j < length bws \<and> j < length urls \<longrightarrow> urls ! j \<noteq> urls ! i)
             \<longrightarrow> map_of d (urls ! i) = Some (int (digits_val (bws ! i))))
      \<and> fst ` set d = set (take (length bws) urls)
      \<and> ((\<exists>ys. get_cb_play_url_list m resp = Inr ys)
            \<longleftrightarrow> set urls \<subseteq> set (take (length bws) urls))
      \<and> (get_cb_play_url_list m resp = Inl KeyError
            \<longleftrightarrow> \<not> set urls \<subseteq> set (take (length bws) urls))
      \<and> (\<exists>resp'. length (bandwidth_findall resp')
                    < length (collect_urls (hd (py_rsplit1 (CHR ''/'') m) @ ''/'') resp')
                 \<and> get_cb_play_url_list m resp' = Inl KeyError)"
proof -
  let ?base = "hd (py_rsplit1 (CHR ''/'') m) @ ''/''"
  let ?urls = "collect_urls ?base resp"
  let ?bws = "bandwidth_findall resp"
  let ?d = "url_to_bandwidth ?bws ?urls"
  have eq: "get_cb_play_url_list m resp = sorted_by_bandwidth ?d ?urls"
    by (rule get_cb_play_url_list_eq)
  have pos: "\<forall>i. i < length ?bws \<and> i < length ?urls
               \<and> (\<forall>j. i < j \<and> j < length ?bws \<and> j < length ?urls \<longrightarrow> ?urls ! j \<noteq> ?urls ! i)
             \<longrightarrow> map_of ?d (?urls ! i) = Some (int (digits_val (?bws ! i)))"
    using url_to_bandwidth_nth by blast
  have keys: "fst ` set ?d = set (take (length ?bws) ?urls)"
    by (rule url_to_bandwidth_keys)
  have ok: "(\<exists>ys. get_cb_play_url_list m resp = Inr ys)
              \<longleftrightarrow> set ?urls \<subseteq> set (take (length ?bws) ?urls)"
    unfolding eq sorted_by_bandwidth_Inr_iff keys ..
  have bad: "get_cb_play_url_list m resp = Inl KeyError
               \<longleftrightarrow> \<not> set ?urls \<subseteq> set (take (length ?bws) ?urls)"
    using ok sorted_by_bandwidth_cases [of ?d ?urls] unfolding eq by auto
  let ?r = "''#EXT-X-STREAM-INF:BANDWIDTH=100'' @ [CHR 0x0A] @ ''chunklist_a.m3u8'' @ [CHR 0x0A]
            @ ''#EXT-X-STREAM-INF:RESOLUTION=1x1'' @ [CHR 0x0A] @ ''chunklist_b.m3u8''"
  have bw: "bandwidth_findall ?r = [''100'']"
    by (simp add: is_digit_def)
  have urls: "collect_urls ?base ?r = [?base @ ''chunklist_a.m3u8'', ?base @ ''chunklist_b.m3u8'']"
    by (simp add: collect_urls_def py_strip_def py_isspace_def)
  have "get_cb_play_url_list m ?r = Inl KeyError"
    unfolding get_cb_play_url_list_eq bw urls
    by (simp add: url_to_bandwidth_def sorted_by_bandwidth_def)
  with bw urls have ex: "\<exists>resp'. length (bandwidth_findall resp') < length (collect_urls ?base resp')
                 \<and> get_cb_play_url_list m resp' = Inl KeyError"
    by (intro exI [of _ ?r]) simp
  from eq pos keys ok bad ex show ?thesis unfolding Let_def by blast
qed

theorem get_cb_play_url_list_pairing_witness:
  "get_cb_play_url_list ''https://h/live/playlist.m3u8''
     (''#EXT-X-STREAM-INF:BANDWIDTH=100'' @ [CHR 0x0A] @ ''chunklist_a.m3u8'' @ [CHR 0x0A]
      @ ''#EXT-X-STREAM-INF:BANDWIDTH=2500'' @ [CHR 0x0A] @ ''chunklist_b.m3u8'')
   = Inr [''https://h/live/chunklist_b.m3u8'', ''https://h/live/chunklist_a.m3u8'']
   \<and> get_cb_play_url_list ''https://h/live/playlist.m3u8''
     (''#EXT-X-STREAM-INF:BANDWIDTH=100'' @ [CHR 0x0A] @ ''chunklist_a.m3u8'' @ [CHR 0x0A]
      @ ''#EXT-X-STREAM-INF:RESOLUTION=1x1'' @ [CHR 0x0A] @ ''chunklist_b.m3u8'')
   = Inl KeyError"
proof -
  let ?m = "''https://h/live/playlist.m3u8''"
  let ?r1 = "''#EXT-X-STREAM-INF:BANDWIDTH=100'' @ [CHR 0x0A] @ ''chunklist_a.m3u8'' @ [CHR 0x0A]
      @ ''#EXT-X-STREAM-INF:BANDWIDTH=2500'' @ [CHR 0x0A] @ ''chunklist_b.m3u8''"
  let ?r2 = "''#EXT-X-STREAM-INF:BANDWIDTH=100'' @ [CHR 0x0A] @ ''chunklist_a.m3u8'' @ [CHR 0x0A]
      @ ''#EXT-X-STREAM-INF:RESOLUTION=1x1'' @ [CHR 0x0A] @ ''chunklist_b.m3u8''"
  have base: "hd (py_rsplit1 (CHR ''/'') ?m) @ ''/'' = ''https://h/live/''"
    by (simp add: py_rsplit1_def)
  have bw1: "bandwidth_findall ?r1 = [''100'', ''2500'']" by (simp add: is_digit_def)
  have bw2: "bandwidth_findall ?r2 = [''100'']" by (simp add: is_digit_def)
  have u1: "collect_urls ''https://h/live/'' ?r1
              = [''https://h/live/chunklist_a.m3u8'', ''https://h/live/chunklist_b.m3u8'']"
    by (simp add: collect_urls_def py_strip_def py_isspace_def)
  have u2: "collect_urls ''https://h/live/'' ?r2
              = [''https://h/live/chunklist_a.m3u8'', ''https://h/live/chunklist_b.m3u8'']"
    by (simp add: collect_urls_def py_strip_def py_isspace_def)
  from get_cb_play_url_list_pairing [of ?m ?r1]
  have "get_cb_play_url_list ?m ?r1
          = sorted_by_bandwidth
              (url_to_bandwidth [''100'', ''2500'']
                 [''https://h/live/chunklist_a.m3u8'', ''https://h/live/chunklist_b.m3u8''])
              [''https://h/live/chunklist_a.m3u8'', ''https://h/live/chunklist_b.m3u8'']"
    unfolding Let_def base bw1 u1 by blast
  then have 1: "get_cb_play_url_list ?m ?r1
          = Inr [''https://h/live/chunklist_b.m3u8'', ''https://h/live/chunklist_a.m3u8'']"
    by (simp add: url_to_bandwidth_def sorted_by_bandwidth_def digits_val_def digit_val_def)
  from get_cb_play_url_list_pairing [of ?m ?r2]
  have "get_cb_play_url_list ?m ?r2 = Inl KeyError
          \<longleftrightarrow> \<not> set [''https://h/live/chunklist_a.m3u8'', ''https://h/live/chunklist_b.m3u8'']
                  \<subseteq> set (take (length [''100''])
                        [''https://h/live/chunklist_a.m3u8'', ''https://h/live/chunklist_b.m3u8''])"
    unfolding Let_def base bw2 u2 by blast
  then have 2: "get_cb_play_url_list ?m ?r2 = Inl KeyError" by simp
  from 1 2 show ?thesis by blast
qed

section \<open>Properties of the segment loop\<close>

lemma fetch_once_cases:
  obtains (join) e where "urljoin E (base_url pl) (seg_uri seg) = Inl e"
      and "fetch_once E pl seg tr = (Inl e, tr)"
  | (get) u e where "urljoin E (base_url pl) (seg_uri seg) = Inr u"
      and "seg_get E tr u = Inl e" and "fetch_once E pl seg tr = (Inl e, tr @ [Get u])"
  | (call) u c e where "urljoin E (base_url pl) (seg_uri seg) = Inr u"
      and "seg_get E tr u = Inr c" and "handler E (tr @ [Get u]) c (duration seg) = Inl e"
      and "fetch_once E pl seg tr = (Inl e, tr @ [Get u, Handler c seg])"
  | (ok) u c where "urljoin E (base_url pl) (seg_uri seg) = Inr u"
      and "seg_get E tr u = Inr c" and "handler E (tr @ [Get u]) c (duration seg) = Inr ()"
      and "fetch_once E pl seg tr = (Inr (), tr @ [Get u, Handler c seg])"
proof (cases "urljoin E (base_url pl) (seg_uri seg)")
  case (Inl e)
  then show ?thesis using join by (simp add: fetch_once_def)
next
  case u: (Inr u)
  show ?thesis
  proof (cases "seg_get E tr u")
    case (Inl e)
    with u show ?thesis using get by (simp add: fetch_once_def)
  next
    case c: (Inr c)
    show ?thesis
    proof (cases "handler E (tr @ [Get u]) c (duration seg)")
      case (Inl e)
      with u c show ?thesis using call by (simp add: fetch_once_def)
    next
      case (Inr x)
      with u c show ?thesis using ok by (simp add: fetch_once_def)
    qed
  qed
qed

text \<open>The events of one attempt: at most one request, and a call only after it.\<close>

lemma fetch_once_events:
  "\<exists>ev. snd (fetch_once E pl seg tr) = tr @ ev
        \<and> length (filter is_get ev) \<le> 1
        \<and> (\<forall>e \<in> set ev. is_get e \<or> is_handler e)
        \<and> (\<forall>u. Get u \<in> set ev \<longrightarrow> urljoin E (base_url pl) (seg_uri seg) = Inr u)
        \<and> (\<forall>c s. Handler c s \<in> set ev \<longrightarrow> s = seg)"
  by (cases E pl seg tr rule: fetch_once_cases) auto

lemma fetch_retry_unrolled:
  "fetch_retry E pl seg [0, 1, 2] tr =
     (case fetch_once E pl seg tr of
        (Inr _, t0) \<Rightarrow> (Inr (), t0)
      | (Inl e0, t0) \<Rightarrow>
          (case fetch_once E pl seg (t0 @ [Sleep (6 / 10)]) of
             (Inr _, t1) \<Rightarrow> (Inr (), t1)
           | (Inl e1, t1) \<Rightarrow>
               (case fetch_once E pl seg (t1 @ [Sleep (6 / 10)]) of
                  (Inr _, t2) \<Rightarrow> (Inr (), t2)
                | (Inl e2, t2) \<Rightarrow> (Inl e2, t2))))"
  by (simp split: prod.splits sum.splits)

lemma fetch_retry_events:
  "\<exists>ev. snd (fetch_retry E pl seg as tr) = tr @ ev
        \<and> length (filter is_get ev) \<le> length as
        \<and> (\<forall>e \<in> set ev. is_get e \<or> is_handler e \<or> e = Sleep (6 / 10))
        \<and> (\<forall>u. Get u \<in> set ev \<longrightarrow> urljoin E (base_url pl) (seg_uri seg) = Inr u)
        \<and> (\<forall>c s. Handler c s \<in> set ev \<longrightarrow> s = seg)"
proof (induction as arbitrary: tr)
  case Nil
  show ?case by simp
next
  case (Cons a as)
  obtain r t0 where f: "fetch_once E pl seg tr = (r, t0)" by (cases "fetch_once E pl seg tr")
  from fetch_once_events [of E pl seg tr] f
  obtain ev0 where ev0: "t0 = tr @ ev0" "length (filter is_get ev0) \<le> 1"
    "\<forall>e \<in> set ev0. is_get e \<or> is_handler e"
    "\<forall>u. Get u \<in> set ev0 \<longrightarrow> urljoin E (base_url pl) (seg_uri seg) = Inr u"
    "\<forall>c s. Handler c s \<in> set ev0 \<longrightarrow> s = seg"
    by auto
  show ?case
  proof (cases "(\<exists>x. r = Inr x) \<or> a = 2")
    case True
    then have "snd (fetch_retry E pl seg (a # as) tr) = t0"
      using f by (auto split: sum.splits)
    with ev0 show ?thesis by (intro exI [of _ ev0]) auto
  next
    case False
    then have step: "fetch_retry E pl seg (a # as) tr = fetch_retry E pl seg as (t0 @ [Sleep (6 / 10)])"
      using f by (auto split: sum.splits)
    from Cons.IH [of "t0 @ [Sleep (6 / 10)]"]
    obtain ev1 where ev1: "snd (fetch_retry E pl seg as (t0 @ [Sleep (6 / 10)])) = (t0 @ [Sleep (6 / 10)]) @ ev1"
      "length (filter is_get ev1) \<le> length as"
      "\<forall>e \<in> set ev1. is_get e \<or> is_handler e \<or> e = Sleep (6 / 10)"
      "\<forall>u. Get u \<in> set ev1 \<longrightarrow> urljoin E (base_url pl) (seg_uri seg) = Inr u"
      "\<forall>c s. Handler c s \<in> set ev1 \<longrightarrow> s = seg"
      by blast
    show ?thesis
      using step ev0 ev1
      by (intro exI [of _ "ev0 @ Sleep (6 / 10) # ev1"]) auto
  qed
qed

lemma for_segments_events:
  "for_segments E segs (pl, tr) = (r, pl', tr') \<Longrightarrow>
     \<exists>ev. tr' = tr @ ev
        \<and> pl' = pl\<lparr>last_seq := last_seq pl'\<rparr> \<and> last_seq pl \<le> last_seq pl'
        \<and> (\<forall>c s. Handler c s \<in> set ev \<longrightarrow>
               Some s \<in> set segs \<and> seq_of s \<noteq> - 1 \<and> last_seq pl < seq_of s
               \<and> seq_of s \<le> last_seq pl')
        \<and> (\<forall>u. Get u \<in> set ev \<longrightarrow>
               (\<exists>s. Some s \<in> set segs \<and> seq_of s \<noteq> - 1 \<and> last_seq pl < seq_of s
                    \<and> urljoin E (base_url pl) (seg_uri s) = Inr u))
        \<and> (\<forall>e \<in> set ev. is_get e \<or> is_handler e \<or> e = Sleep (6 / 10)
               \<or> (\<exists>n. e = Set_last_seq n))"
proof (induction E segs "(pl, tr)" arbitrary: pl tr rule: for_segments.induct)
  case (1 E pl tr)
  then show ?case by simp
next
  case (2 E rest pl tr)
  from "2.prems" have "for_segments E rest (pl, tr) = (r, pl', tr')" by simp
  from "2.hyps" [OF this] show ?case by (auto; blast)
next
  case (3 E seg rest pl tr)
  let ?seq = "parse_segment_seq (seg_uri seg)"
  show ?case
  proof (cases "?seq = - 1 \<or> ?seq \<le> last_seq pl")
    case True
    with "3.prems" have "for_segments E rest (pl, tr) = (r, pl', tr')" by simp
    from "3.hyps"(1) [OF refl True this] show ?thesis by (auto; blast)
  next
    case False
    let ?pl1 = "pl\<lparr>last_seq := ?seq\<rparr>"
    let ?tr1 = "tr @ [Set_last_seq ?seq]"
    obtain r1 t1 where fr: "fetch_retry E ?pl1 seg [0, 1, 2] ?tr1 = (r1, t1)"
      by (cases "fetch_retry E ?pl1 seg [0, 1, 2] ?tr1")
    from fetch_retry_events [of E ?pl1 seg "[0, 1, 2]" ?tr1] fr
    obtain ev1 where ev1: "t1 = ?tr1 @ ev1"
      "\<forall>e \<in> set ev1. is_get e \<or> is_handler e \<or> e = Sleep (6 / 10)"
      "\<forall>u. Get u \<in> set ev1 \<longrightarrow> urljoin E (base_url pl) (seg_uri seg) = Inr u"
      "\<forall>c s. Handler c s \<in> set ev1 \<longrightarrow> s = seg"
      by auto
    show ?thesis
    proof (cases r1)
      case (Inl e)
      with "3.prems" False fr have res: "r = Inl e" "pl' = ?pl1" "tr' = t1" by (simp_all add: Let_def)
      show ?thesis
        using res ev1 False
        by (intro exI [of _ "Set_last_seq ?seq # ev1"]) (auto simp: seq_of_def)
    next
      case (Inr x)
      with "3.prems" False fr have "for_segments E rest (?pl1, t1) = (r, pl', tr')"
        by (simp add: Let_def)
      from "3.hyps"(2) [OF refl False refl fr [symmetric] Inr this]
      obtain ev2 where ev2: "tr' = t1 @ ev2" "pl' = ?pl1\<lparr>last_seq := last_seq pl'\<rparr>"
        "?seq \<le> last_seq pl'"
        "\<forall>c s. Handler c s \<in> set ev2 \<longrightarrow>
               Some s \<in> set rest \<and> seq_of s \<noteq> - 1 \<and> ?seq < seq_of s \<and> seq_of s \<le> last_seq pl'"
        "\<forall>u. Get u \<in> set ev2 \<longrightarrow>
               (\<exists>s. Some s \<in> set rest \<and> seq_of s \<noteq> - 1 \<and> ?seq < seq_of s
                    \<and> urljoin E (base_url pl) (seg_uri s) = Inr u)"
        "\<forall>e \<in> set ev2. is_get e \<or> is_handler e \<or> e = Sleep (6 / 10) \<or> (\<exists>n. e = Set_last_seq n)"
        by auto
      have lt: "last_seq pl < ?seq" using False by simp
      have "tr' = tr @ (Set_last_seq ?seq # ev1 @ ev2)" using ev1(1) ev2(1) by simp
      moreover have "pl' = pl\<lparr>last_seq := last_seq pl'\<rparr>" using ev2(2) by (cases pl') auto
      moreover have "last_seq pl \<le> last_seq pl'" using False ev2(3) by simp
      moreover have "\<forall>c s. Handler c s \<in> set (Set_last_seq ?seq # ev1 @ ev2) \<longrightarrow>
               Some s \<in> set (Some seg # rest) \<and> seq_of s \<noteq> - 1 \<and> last_seq pl < seq_of s
               \<and> seq_of s \<le> last_seq pl'"
      proof (intro allI impI)
        fix c s assume "Handler c s \<in> set (Set_last_seq ?seq # ev1 @ ev2)"
        then consider "Handler c s \<in> set ev1" | "Handler c s \<in> set ev2" by auto
        then show "Some s \<in> set (Some seg # rest) \<and> seq_of s \<noteq> - 1 \<and> last_seq pl < seq_of s
               \<and> seq_of s \<le> last_seq pl'"
        proof cases
          case 1
          with ev1(4) have "s = seg" by blast
          with False ev2(3) show ?thesis by (simp add: seq_of_def)
        next
          case 2
          with ev2(4) have "Some s \<in> set rest" "seq_of s \<noteq> - 1" "?seq < seq_of s"
            "seq_of s \<le> last_seq pl'" by blast+
          with lt show ?thesis by simp
        qed
      qed
      moreover have "\<forall>u. Get u \<in> set (Set_last_seq ?seq # ev1 @ ev2) \<longrightarrow>
               (\<exists>s. Some s \<in> set (Some seg # rest) \<and> seq_of s \<noteq> - 1 \<and> last_seq pl < seq_of s
                    \<and> urljoin E (base_url pl) (seg_uri s) = Inr u)"
      proof (intro allI impI)
        fix u assume "Get u \<in> set (Set_last_seq ?seq # ev1 @ ev2)"
        then consider "Get u \<in> set ev1" | "Get u \<in> set ev2" by auto
        then show "\<exists>s. Some s \<in> set (Some seg # rest) \<and> seq_of s \<noteq> - 1 \<and> last_seq pl < seq_of s
                    \<and> urljoin E (base_url pl) (seg_uri s) = Inr u"
        proof cases
          case 1
          with ev1(3) False show ?thesis by (intro exI [of _ seg]) (auto simp: seq_of_def)
        next
          case 2
          with ev2(5) obtain s where "Some s \<in> set rest" "seq_of s \<noteq> - 1" "?seq < seq_of s"
            "urljoin E (base_url pl) (seg_uri s) = Inr u" by blast
          with lt show ?thesis by (intro exI [of _ s]) simp
        qed
      qed
      moreover have "\<forall>e \<in> set (Set_last_seq ?seq # ev1 @ ev2).
           is_get e \<or> is_handler e \<or> e = Sleep (6 / 10) \<or> (\<exists>n. e = Set_last_seq n)"
        using ev1(2) ev2(6) by auto
      ultimately show ?thesis by blast
    qed
  qed
qed

text \<open>
  Claim C3. In a round of the segment loop, a segment whose sequence number is -1 or not
  above \<open>last_seq\<close> changes nothing: no request, no call of the handler, no assignment. For
  a segment taken as new, \<open>last_seq\<close> is assigned first: the retry loop starts from a
  playlist that already holds the new value and from events that end with the assignment,
  everything it does comes after, and the new value stays when the fetch fails. Over a whole
  list, every call of the handler and every request is for a segment with a sequence number
  above the \<open>last_seq\<close> the loop started with.
\<close>

theorem for_segments_diff:
  "(seq_of seg = - 1 \<or> seq_of seg \<le> last_seq pl \<longrightarrow>
      for_segments E (Some seg # rest) (pl, tr) = for_segments E rest (pl, tr))
   \<and> (\<not> (seq_of seg = - 1 \<or> seq_of seg \<le> last_seq pl) \<longrightarrow>
        (\<exists>r ev. fetch_retry E (pl\<lparr>last_seq := seq_of seg\<rparr>) seg [0, 1, 2]
                   (tr @ [Set_last_seq (seq_of seg)])
                 = (r, tr @ Set_last_seq (seq_of seg) # ev)
           \<and> (\<forall>e \<in> set ev. is_get e \<or> is_handler e \<or> e = Sleep (6 / 10))
           \<and> for_segments E (Some seg # rest) (pl, tr) =
               (case r of
                  Inl e \<Rightarrow> (Inl e, pl\<lparr>last_seq := seq_of seg\<rparr>,
                              tr @ Set_last_seq (seq_of seg) # ev)
                | Inr x \<Rightarrow> for_segments E rest
                             (pl\<lparr>last_seq := seq_of seg\<rparr>,
                              tr @ Set_last_seq (seq_of seg) # ev))))
   \<and> (\<exists>ev. snd (snd (for_segments E segs (pl, tr))) = tr @ ev
         \<and> (\<forall>c s. Handler c s \<in> set ev \<longrightarrow> seq_of s \<noteq> - 1 \<and> last_seq pl < seq_of s)
         \<and> (\<forall>u. Get u \<in> set ev \<longrightarrow>
                (\<exists>s. Some s \<in> set segs \<and> seq_of s \<noteq> - 1 \<and> last_seq pl < seq_of s
                     \<and> urljoin E (base_url pl) (seg_uri s) = Inr u)))"
proof (intro conjI impI)
  assume "seq_of seg = - 1 \<or> seq_of seg \<le> last_seq pl"
  then show "for_segments E (Some seg # rest) (pl, tr) = for_segments E rest (pl, tr)"
    by (simp add: seq_of_def)
next
  assume new: "\<not> (seq_of seg = - 1 \<or> seq_of seg \<le> last_seq pl)"
  let ?pl1 = "pl\<lparr>last_seq := seq_of seg\<rparr>"
  let ?tr1 = "tr @ [Set_last_seq (seq_of seg)]"
  obtain r t1 where fr: "fetch_retry E ?pl1 seg [0, 1, 2] ?tr1 = (r, t1)"
    by (cases "fetch_retry E ?pl1 seg [0, 1, 2] ?tr1")
  from fetch_retry_events [of E ?pl1 seg "[0, 1, 2]" ?tr1] fr
  obtain ev where ev: "t1 = ?tr1 @ ev"
    "\<forall>e \<in> set ev. is_get e \<or> is_handler e \<or> e = Sleep (6 / 10)"
    by auto
  have eq: "for_segments E (Some seg # rest) (pl, tr) =
          (case r of
             Inl e \<Rightarrow> (Inl e, ?pl1, t1)
           | Inr x \<Rightarrow> for_segments E rest (?pl1, t1))"
    using new fr by (simp add: seq_of_def Let_def split: sum.splits)
  have t1: "t1 = tr @ Set_last_seq (seq_of seg) # ev" using ev(1) by simp
  show "\<exists>r ev. fetch_retry E ?pl1 seg [0, 1, 2] ?tr1
                 = (r, tr @ Set_last_seq (seq_of seg) # ev)
           \<and> (\<forall>e \<in> set ev. is_get e \<or> is_handler e \<or> e = Sleep (6 / 10))
           \<and> for_segments E (Some seg # rest) (pl, tr) =
               (case r of
                  Inl e \<Rightarrow> (Inl e, ?pl1, tr @ Set_last_seq (seq_of seg) # ev)
                | Inr x \<Rightarrow> for_segments E rest (?pl1, tr @ Set_last_seq (seq_of seg) # ev))"
    using fr eq ev(2) unfolding t1 by blast
next
  obtain r pl' tr' where fs: "for_segments E segs (pl, tr) = (r, pl', tr')"
    by (cases "for_segments E segs (pl, tr)")
  from for_segments_events [OF fs] fs
  show "\<exists>ev. snd (snd (for_segments E segs (pl, tr))) = tr @ ev
         \<and> (\<forall>c s. Handler c s \<in> set ev \<longrightarrow> seq_of s \<noteq> - 1 \<and> last_seq pl < seq_of s)
         \<and> (\<forall>u. Get u \<in> set ev \<longrightarrow>
                (\<exists>s. Some s \<in> set segs \<and> seq_of s \<noteq> - 1 \<and> last_seq pl < seq_of s
                     \<and> urljoin E (base_url pl) (seg_uri s) = Inr u))"
    by (auto; blast)
qed

lemmas seq_eval = seq_of_def parse_segment_seq_def parse_segment_seq_try_def py_int_eval

theorem for_segments_diff_witness:
  "for_segments
     \<lparr>M3U8 = \<lambda>_. Inl ParseError, urljoin = \<lambda>b u. Inr (b @ u),
      seg_get = \<lambda>_ _. Inl RequestError, handler = \<lambda>_ _ _. Inr ()\<rparr>
     [Some \<lparr>seg_uri = ''segment-3.ts'', duration = 2\<rparr>, Some \<lparr>seg_uri = ''segment-5.ts'', duration = 2\<rparr>,
      Some \<lparr>seg_uri = ''segment-6.ts'', duration = 2\<rparr>]
     (\<lparr>url = ''https://h/live/chunklist.m3u8'', base_url = ''https://h/live/'', resolution = 640,
       pl_framerate = 30, last_seq = 4\<rparr>, [])
   = (Inl RequestError,
      \<lparr>url = ''https://h/live/chunklist.m3u8'', base_url = ''https://h/live/'', resolution = 640,
       pl_framerate = 30, last_seq = 5\<rparr>,
      [Set_last_seq 5, Get ''https://h/live/segment-5.ts'', Sleep (6 / 10),
       Get ''https://h/live/segment-5.ts'', Sleep (6 / 10), Get ''https://h/live/segment-5.ts''])"
proof -
  let ?E = "\<lparr>M3U8 = \<lambda>_. Inl ParseError, urljoin = \<lambda>b u. Inr (b @ u),
      seg_get = \<lambda>_ _. Inl RequestError, handler = \<lambda>_ _ _. Inr ()\<rparr>"
  let ?s3 = "\<lparr>seg_uri = ''segment-3.ts'', duration = 2\<rparr>"
  let ?s5 = "\<lparr>seg_uri = ''segment-5.ts'', duration = 2\<rparr>"
  let ?s6 = "\<lparr>seg_uri = ''segment-6.ts'', duration = 2\<rparr>"
  let ?pl = "\<lparr>url = ''https://h/live/chunklist.m3u8'', base_url = ''https://h/live/'',
              resolution = 640, pl_framerate = 30, last_seq = 4\<rparr>"
  have s3: "seq_of ?s3 = 3" by (simp add: seq_eval)
  have s5: "seq_of ?s5 = 5" by (simp add: seq_eval)
  have "seq_of ?s3 = - 1 \<or> seq_of ?s3 \<le> last_seq ?pl" by (simp add: s3)
  with for_segments_diff [of ?s3 ?pl ?E "[Some ?s5, Some ?s6]" "[]"]
  have skip: "for_segments ?E [Some ?s3, Some ?s5, Some ?s6] (?pl, [])
                = for_segments ?E [Some ?s5, Some ?s6] (?pl, [])"
    by blast
  have "\<not> (seq_of ?s5 = - 1 \<or> seq_of ?s5 \<le> last_seq ?pl)" by (simp add: s5)
  with for_segments_diff [of ?s5 ?pl ?E "[Some ?s6]" "[]"]
  obtain r ev where
    fr: "fetch_retry ?E (?pl\<lparr>last_seq := seq_of ?s5\<rparr>) ?s5 [0, 1, 2] ([] @ [Set_last_seq (seq_of ?s5)])
           = (r, [] @ Set_last_seq (seq_of ?s5) # ev)"
    and fs: "for_segments ?E [Some ?s5, Some ?s6] (?pl, []) =
               (case r of
                  Inl e \<Rightarrow> (Inl e, ?pl\<lparr>last_seq := seq_of ?s5\<rparr>, [] @ Set_last_seq (seq_of ?s5) # ev)
                | Inr x \<Rightarrow> for_segments ?E [Some ?s6]
                             (?pl\<lparr>last_seq := seq_of ?s5\<rparr>, [] @ Set_last_seq (seq_of ?s5) # ev))"
    by blast
  from fr have "r = Inl RequestError
      \<and> ev = [Get ''https://h/live/segment-5.ts'', Sleep (6 / 10),
              Get ''https://h/live/segment-5.ts'', Sleep (6 / 10), Get ''https://h/live/segment-5.ts'']"
    by (simp add: fetch_once_def s5)
  with fs skip show ?thesis by (simp add: s5)
qed

lemma fetch_once_Inr:
  assumes "fetch_once E pl seg tr = (Inr x, tr')"
  shows "\<exists>u c. tr' = tr @ [Get u, Handler c seg] \<and> seg_get E tr u = Inr c
               \<and> urljoin E (base_url pl) (seg_uri seg) = Inr u"
  using assms by (cases E pl seg tr rule: fetch_once_cases) auto

lemma fetch_once_Inl_quiet:
  assumes "\<forall>t c. handler E t c (duration seg) = Inr ()"
    and "fetch_once E pl seg tr = (Inl e, tr')"
  shows "\<exists>ev. tr' = tr @ ev \<and> (\<forall>e \<in> set ev. \<not> is_handler e)"
  using assms by (cases E pl seg tr rule: fetch_once_cases) auto

lemma fetch_retry_delivers_once:
  assumes quiet: "\<forall>t c. handler E t c (duration seg) = Inr ()"
    and ok: "fetch_retry E pl seg [0, 1, 2] tr = (Inr x, tr')"
  shows "\<exists>ev u c. tr' = tr @ ev @ [Get u, Handler c seg] \<and> (\<forall>e \<in> set ev. \<not> is_handler e)
                 \<and> seg_get E (tr @ ev) u = Inr c
                 \<and> urljoin E (base_url pl) (seg_uri seg) = Inr u"
proof -
  have last: "\<exists>ev u c. tr' = tr @ ev @ [Get u, Handler c seg] \<and> (\<forall>e \<in> set ev. \<not> is_handler e)
                 \<and> seg_get E (tr @ ev) u = Inr c
                 \<and> urljoin E (base_url pl) (seg_uri seg) = Inr u"
    if pre: "\<forall>e \<in> set ev0. \<not> is_handler e" and f: "fetch_once E pl seg (tr @ ev0) = (Inr y, tr')"
    for ev0 y
  proof -
    from fetch_once_Inr [OF f]
    obtain u c where "tr' = tr @ ev0 @ [Get u, Handler c seg]" "seg_get E (tr @ ev0) u = Inr c"
      "urljoin E (base_url pl) (seg_uri seg) = Inr u" by auto
    with pre show ?thesis by blast
  qed
  obtain r0 t0 where f0: "fetch_once E pl seg tr = (r0, t0)" by (cases "fetch_once E pl seg tr")
  note ok' = ok [unfolded fetch_retry_unrolled]
  show ?thesis
  proof (cases r0)
    case (Inr y)
    with f0 ok' have "fetch_once E pl seg (tr @ []) = (Inr y, tr')"
      by simp
    with last [of "[]"] show ?thesis by simp
  next
    case e0: (Inl e0)
    from fetch_once_Inl_quiet [OF quiet] f0 e0
    obtain ev0 where ev0: "t0 = tr @ ev0" "\<forall>e \<in> set ev0. \<not> is_handler e" by blast
    let ?t0 = "t0 @ [Sleep (6 / 10)]"
    obtain r1 t1 where f1: "fetch_once E pl seg ?t0 = (r1, t1)"
      by (cases "fetch_once E pl seg ?t0")
    show ?thesis
    proof (cases r1)
      case (Inr y)
      with f0 e0 f1 ok' ev0 have "fetch_once E pl seg (tr @ (ev0 @ [Sleep (6 / 10)])) = (Inr y, tr')"
        by simp
      moreover have "\<forall>e \<in> set (ev0 @ [Sleep (6 / 10)]). \<not> is_handler e" using ev0(2) by simp
      ultimately show ?thesis using last by blast
    next
      case e1: (Inl e1)
      from fetch_once_Inl_quiet [OF quiet] f1 e1
      obtain ev1 where ev1: "t1 = ?t0 @ ev1" "\<forall>e \<in> set ev1. \<not> is_handler e" by blast
      let ?t1 = "t1 @ [Sleep (6 / 10)]"
      obtain r2 t2 where f2: "fetch_once E pl seg ?t1 = (r2, t2)"
        by (cases "fetch_once E pl seg ?t1")
      from f0 e0 f1 e1 f2 ok' obtain y where r2: "r2 = Inr y" and "t2 = tr'"
        by (cases r2) simp_all
      with f2 ev0 ev1
      have "fetch_once E pl seg (tr @ (ev0 @ Sleep (6 / 10) # ev1 @ [Sleep (6 / 10)])) = (Inr y, tr')"
        by simp
      moreover have "\<forall>e \<in> set (ev0 @ Sleep (6 / 10) # ev1 @ [Sleep (6 / 10)]). \<not> is_handler e"
        using ev0(2) ev1(2) by auto
      ultimately show ?thesis using last by blast
    qed
  qed
qed

lemma cycle_try_for_segments:
  assumes "poll = Inr body" and "M3U8 E body = Inr m"
    and "for_segments E (segments m) (pl, tr @ [Get (url pl)]) = (Inl e, pl', tr')"
  shows "cycle_try E interval poll (pl, tr) = (Inl e, pl', tr')"
  using assms by (simp add: cycle_try_def)

text \<open>
  Claim C4, as amended. For a new segment there are at most three attempts, each a request
  followed by the call of the handler, with \<open>time.sleep(0.6)\<close> between two attempts and
  none after the last. The first attempt in which neither raises ends the loop. If the
  handler never raises, a successful retry loop has called it exactly once, as its last
  event, with the bytes of the last request and the duration of the segment. If the third
  attempt fails, its exception leaves the segment loop (the remaining segments are not
  looked at) and the round: the outer handler prints it and sleeps, and the loop goes on
  with the next round.
\<close>

theorem fetch_retry_attempts:
  "fetch_retry E pl seg [0, 1, 2] tr =
     (case fetch_once E pl seg tr of
        (Inr x, t0) \<Rightarrow> (Inr (), t0)
      | (Inl e0, t0) \<Rightarrow>
          (case fetch_once E pl seg (t0 @ [Sleep (6 / 10)]) of
             (Inr x, t1) \<Rightarrow> (Inr (), t1)
           | (Inl e1, t1) \<Rightarrow>
               (case fetch_once E pl seg (t1 @ [Sleep (6 / 10)]) of
                  (Inr x, t2) \<Rightarrow> (Inr (), t2)
                | (Inl e2, t2) \<Rightarrow> (Inl e2, t2))))
   \<and> (\<exists>ev. snd (fetch_retry E pl seg [0, 1, 2] tr) = tr @ ev
         \<and> length (filter is_get ev) \<le> 3
         \<and> (\<forall>e \<in> set ev. is_get e \<or> is_handler e \<or> e = Sleep (6 / 10)))
   \<and> ((\<forall>t c. handler E t c (duration seg) = Inr ()) \<longrightarrow>
        (\<forall>tr'. fetch_retry E pl seg [0, 1, 2] tr = (Inr (), tr') \<longrightarrow>
           (\<exists>ev u c. tr' = tr @ ev @ [Get u, Handler c seg]
                    \<and> (\<forall>e \<in> set ev. \<not> is_handler e)
                    \<and> seg_get E (tr @ ev) u = Inr c
                    \<and> urljoin E (base_url pl) (seg_uri seg) = Inr u)))
   \<and> (\<forall>e tr'. \<not> (seq_of seg = - 1 \<or> seq_of seg \<le> last_seq pl)
          \<and> fetch_retry E (pl\<lparr>last_seq := seq_of seg\<rparr>) seg [0, 1, 2]
                (tr @ [Set_last_seq (seq_of seg)]) = (Inl e, tr')
        \<longrightarrow> for_segments E (Some seg # rest) (pl, tr)
              = (Inl e, pl\<lparr>last_seq := seq_of seg\<rparr>, tr'))
   \<and> (\<forall>e pl' tr' body m. poll = Inr body \<and> M3U8 E body = Inr m
          \<and> for_segments E (segments m) (pl, tr @ [Get (url pl)]) = (Inl e, pl', tr')
        \<longrightarrow> cycle E interval poll (pl, tr) = (pl', tr' @ [Print e, Sleep 5]))
   \<and> watch_rounds E interval polls (Suc n) s
       = cycle E interval (polls n) (watch_rounds E interval polls n s)"
proof (intro conjI allI impI)
  show "fetch_retry E pl seg [0, 1, 2] tr =
     (case fetch_once E pl seg tr of
        (Inr x, t0) \<Rightarrow> (Inr (), t0)
      | (Inl e0, t0) \<Rightarrow>
          (case fetch_once E pl seg (t0 @ [Sleep (6 / 10)]) of
             (Inr x, t1) \<Rightarrow> (Inr (), t1)
           | (Inl e1, t1) \<Rightarrow>
               (case fetch_once E pl seg (t1 @ [Sleep (6 / 10)]) of
                  (Inr x, t2) \<Rightarrow> (Inr (), t2)
                | (Inl e2, t2) \<Rightarrow> (Inl e2, t2))))"
    by (rule fetch_retry_unrolled)
next
  from fetch_retry_events [of E pl seg "[0, 1, 2]" tr]
  show "\<exists>ev. snd (fetch_retry E pl seg [0, 1, 2] tr) = tr @ ev
         \<and> length (filter is_get ev) \<le> 3
         \<and> (\<forall>e \<in> set ev. is_get e \<or> is_handler e \<or> e = Sleep (6 / 10))"
    by auto
next
  fix tr'
  assume "\<forall>t c. handler E t c (duration seg) = Inr ()"
    and "fetch_retry E pl seg [0, 1, 2] tr = (Inr (), tr')"
  then show "\<exists>ev u c. tr' = tr @ ev @ [Get u, Handler c seg]
                    \<and> (\<forall>e \<in> set ev. \<not> is_handler e)
                    \<and> seg_get E (tr @ ev) u = Inr c
                    \<and> urljoin E (base_url pl) (seg_uri seg) = Inr u"
    by (rule fetch_retry_delivers_once)
next
  fix e tr'
  assume "\<not> (seq_of seg = - 1 \<or> seq_of seg \<le> last_seq pl)
          \<and> fetch_retry E (pl\<lparr>last_seq := seq_of seg\<rparr>) seg [0, 1, 2]
                (tr @ [Set_last_seq (seq_of seg)]) = (Inl e, tr')"
  then show "for_segments E (Some seg # rest) (pl, tr)
              = (Inl e, pl\<lparr>last_seq := seq_of seg\<rparr>, tr')"
    by (simp add: seq_of_def Let_def del: fetch_retry.simps)
next
  fix e pl' tr' body m
  assume "poll = Inr body \<and> M3U8 E body = Inr m
          \<and> for_segments E (segments m) (pl, tr @ [Get (url pl)]) = (Inl e, pl', tr')"
  then have "cycle_try E interval poll (pl, tr) = (Inl e, pl', tr')"
    using cycle_try_for_segments by blast
  then show "cycle E interval poll (pl, tr) = (pl', tr' @ [Print e, Sleep 5])"
    by (simp add: cycle_def)
next
  show "watch_rounds E interval polls (Suc n) s
       = cycle E interval (polls n) (watch_rounds E interval polls n s)"
    by simp
qed

text \<open>
  A handler that raises makes the attempt fail like a failed request: here it raises at
  its first call only, the second attempt succeeds, and the handler has been called twice
  for the one segment.
\<close>

theorem fetch_retry_attempts_counterexample:
  "fetch_retry
     \<lparr>M3U8 = \<lambda>_. Inl ParseError, urljoin = \<lambda>b u. Inr (b @ u),
      seg_get = \<lambda>_ _. Inr ''data'',
      handler = \<lambda>t _ _. if filter is_handler t = [] then Inl CallbackError else Inr ()\<rparr>
     \<lparr>url = ''https://h/live/chunklist.m3u8'', base_url = ''https://h/live/'', resolution = 640,
      pl_framerate = 30, last_seq = 1\<rparr>
     \<lparr>seg_uri = ''segment-1.ts'', duration = 2\<rparr> [0, 1, 2] []
   = (Inr (),
      [Get ''https://h/live/segment-1.ts'', Handler ''data'' \<lparr>seg_uri = ''segment-1.ts'', duration = 2\<rparr>,
       Sleep (6 / 10),
       Get ''https://h/live/segment-1.ts'', Handler ''data'' \<lparr>seg_uri = ''segment-1.ts'', duration = 2\<rparr>])"
  by (simp add: fetch_once_def)

theorem fetch_retry_attempts_witness:
  "fetch_retry
     \<lparr>M3U8 = \<lambda>_. Inl ParseError, urljoin = \<lambda>b u. Inr (b @ u),
      seg_get = \<lambda>t _. if length (filter is_get t) < 2 then Inl RequestError else Inr ''data'',
      handler = \<lambda>_ _ _. Inr ()\<rparr>
     \<lparr>url = ''https://h/live/chunklist.m3u8'', base_url = ''https://h/live/'', resolution = 640,
      pl_framerate = 30, last_seq = 1\<rparr>
     \<lparr>seg_uri = ''segment-1.ts'', duration = 2\<rparr> [0, 1, 2] []
   = (Inr (),
      [Get ''https://h/live/segment-1.ts'', Sleep (6 / 10),
       Get ''https://h/live/segment-1.ts'', Sleep (6 / 10),
       Get ''https://h/live/segment-1.ts'',
       Handler ''data'' \<lparr>seg_uri = ''segment-1.ts'', duration = 2\<rparr>])
   \<and> cycle
     \<lparr>M3U8 = \<lambda>_. Inr \<lparr>is_variant = False, playlists = [],
                        segments = [Some \<lparr>seg_uri = ''segment-1.ts'', duration = 2\<rparr>,
                                    Some \<lparr>seg_uri = ''segment-2.ts'', duration = 2\<rparr>]\<rparr>,
      urljoin = \<lambda>b u. Inr (b @ u), seg_get = \<lambda>_ _. Inl RequestError,
      handler = \<lambda>_ _ _. Inr ()\<rparr>
     1 (Inr ''#EXTM3U'')
     (\<lparr>url = ''https://h/live/chunklist.m3u8'', base_url = ''https://h/live/'', resolution = 640,
       pl_framerate = 30, last_seq = - 1\<rparr>, [])
   = (\<lparr>url = ''https://h/live/chunklist.m3u8'', base_url = ''https://h/live/'', resolution = 640,
       pl_framerate = 30, last_seq = 1\<rparr>,
      [Get ''https://h/live/chunklist.m3u8'', Set_last_seq 1,
       Get ''https://h/live/segment-1.ts'', Sleep (6 / 10),
       Get ''https://h/live/segment-1.ts'', Sleep (6 / 10),
       Get ''https://h/live/segment-1.ts'', Print RequestError, Sleep 5])
   \<and> (\<exists>ev u c.
         snd (fetch_retry
           \<lparr>M3U8 = \<lambda>_. Inl ParseError, urljoin = \<lambda>b u. Inr (b @ u),
            seg_get = \<lambda>t _. if length (filter is_get t) < 2 then Inl RequestError else Inr ''data'',
            handler = \<lambda>_ _ _. Inr ()\<rparr>
           \<lparr>url = ''https://h/live/chunklist.m3u8'', base_url = ''https://h/live/'',
            resolution = 640, pl_framerate = 30, last_seq = 1\<rparr>
           \<lparr>seg_uri = ''segment-1.ts'', duration = 2\<rparr> [0, 1, 2] [])
           = ev @ [Get u, Handler c \<lparr>seg_uri = ''segment-1.ts'', duration = 2\<rparr>]
         \<and> filter is_handler ev = [])"
proof -
  let ?s1 = "\<lparr>seg_uri = ''segment-1.ts'', duration = 2\<rparr>"
  let ?s2 = "\<lparr>seg_uri = ''segment-2.ts'', duration = 2\<rparr>"
  let ?E2 = "\<lparr>M3U8 = \<lambda>_. Inl ParseError, urljoin = \<lambda>b u. Inr (b @ u),
      seg_get = \<lambda>t _. if length (filter is_get t) < 2 then Inl RequestError else Inr ''data'',
      handler = \<lambda>_ _ _. Inr ()\<rparr>"
  let ?m = "\<lparr>is_variant = False, playlists = [], segments = [Some ?s1, Some ?s2]\<rparr>"
  let ?E3 = "\<lparr>M3U8 = \<lambda>_. Inr ?m,
      urljoin = \<lambda>b u. Inr (b @ u), seg_get = \<lambda>_ _. Inl RequestError,
      handler = \<lambda>_ _ _. Inr ()\<rparr>"
  let ?pl1 = "\<lparr>url = ''https://h/live/chunklist.m3u8'', base_url = ''https://h/live/'',
               resolution = 640, pl_framerate = 30, last_seq = 1\<rparr>"
  let ?pl0 = "\<lparr>url = ''https://h/live/chunklist.m3u8'', base_url = ''https://h/live/'',
               resolution = 640, pl_framerate = 30, last_seq = - 1\<rparr>"
  let ?u = "''https://h/live/segment-1.ts''"
  have s1: "seq_of ?s1 = 1" by (simp add: seq_eval)
  note A = fetch_retry_attempts [where E = ?E2 and pl = ?pl1 and seg = ?s1 and tr = "[]"]
  from A have "fetch_retry ?E2 ?pl1 ?s1 [0, 1, 2] [] =
     (case fetch_once ?E2 ?pl1 ?s1 [] of
        (Inr x, t0) \<Rightarrow> (Inr (), t0)
      | (Inl e0, t0) \<Rightarrow>
          (case fetch_once ?E2 ?pl1 ?s1 (t0 @ [Sleep (6 / 10)]) of
             (Inr x, t1) \<Rightarrow> (Inr (), t1)
           | (Inl e1, t1) \<Rightarrow>
               (case fetch_once ?E2 ?pl1 ?s1 (t1 @ [Sleep (6 / 10)]) of
                  (Inr x, t2) \<Rightarrow> (Inr (), t2)
                | (Inl e2, t2) \<Rightarrow> (Inl e2, t2))))"
    by (rule conjunct1)
  then have 1: "fetch_retry ?E2 ?pl1 ?s1 [0, 1, 2] []
      = (Inr (), [Get ?u, Sleep (6 / 10), Get ?u, Sleep (6 / 10), Get ?u, Handler ''data'' ?s1])"
    by (simp add: fetch_once_def del: fetch_retry.simps)
  note B = fetch_retry_attempts [where E = ?E3 and pl = ?pl0 and seg = ?s1 and tr = "[Get (url ?pl0)]"
      and rest = "[Some ?s2]" and poll = "Inr ''#EXTM3U''" and interval = 1]
  note B' = fetch_retry_attempts [where E = ?E3 and pl = ?pl0 and seg = ?s1 and tr = "[]"
      and poll = "Inr ''#EXTM3U''" and interval = 1]
  have fr: "fetch_retry ?E3 (?pl0\<lparr>last_seq := seq_of ?s1\<rparr>) ?s1 [0, 1, 2]
              ([Get (url ?pl0)] @ [Set_last_seq (seq_of ?s1)])
            = (Inl RequestError,
               [Get (url ?pl0), Set_last_seq 1, Get ?u, Sleep (6 / 10), Get ?u, Sleep (6 / 10), Get ?u])"
    by (simp add: fetch_once_def s1)
  have new: "\<not> (seq_of ?s1 = - 1 \<or> seq_of ?s1 \<le> last_seq ?pl0)" by (simp add: s1)
  note B4 = B [THEN conjunct2, THEN conjunct2, THEN conjunct2, THEN conjunct1, rule_format]
  have fs: "for_segments ?E3 (Some ?s1 # [Some ?s2]) (?pl0, [Get (url ?pl0)])
          = (Inl RequestError, ?pl0\<lparr>last_seq := seq_of ?s1\<rparr>,
             [Get (url ?pl0), Set_last_seq 1, Get ?u, Sleep (6 / 10), Get ?u, Sleep (6 / 10), Get ?u])"
    by (rule B4) (rule conjI [OF new fr])
  have m: "M3U8 ?E3 ''#EXTM3U'' = Inr ?m" by simp
  have fs': "for_segments ?E3 (segments ?m) (?pl0, [] @ [Get (url ?pl0)])
          = (Inl RequestError, ?pl0\<lparr>last_seq := seq_of ?s1\<rparr>,
             [Get (url ?pl0), Set_last_seq 1, Get ?u, Sleep (6 / 10), Get ?u, Sleep (6 / 10), Get ?u])"
    using fs by simp
  note B5 = B' [THEN conjunct2, THEN conjunct2, THEN conjunct2, THEN conjunct2, THEN conjunct1,
      rule_format]
  have "cycle ?E3 1 (Inr ''#EXTM3U'') (?pl0, [])
          = (?pl0\<lparr>last_seq := seq_of ?s1\<rparr>,
             [Get (url ?pl0), Set_last_seq 1, Get ?u, Sleep (6 / 10), Get ?u, Sleep (6 / 10), Get ?u]
               @ [Print RequestError, Sleep 5])"
    by (rule B5) (rule conjI [OF refl conjI [OF m fs']])
  then have 2: "cycle ?E3 1 (Inr ''#EXTM3U'') (?pl0, [])
          = (?pl1, [Get ''https://h/live/chunklist.m3u8'', Set_last_seq 1, Get ?u, Sleep (6 / 10),
                    Get ?u, Sleep (6 / 10), Get ?u, Print RequestError, Sleep 5])"
    by (simp add: s1)
  have quiet: "\<And>t c. handler ?E2 t c (duration ?s1) = Inr ()" by simp
  note A3 = A [THEN conjunct2, THEN conjunct2, THEN conjunct1, rule_format]
  from A3 [OF quiet 1]
  obtain ev u c where eq: "[Get ?u, Sleep (6 / 10), Get ?u, Sleep (6 / 10), Get ?u, Handler ''data'' ?s1]
        = [] @ ev @ [Get u, Handler c ?s1]" and nh: "\<forall>e \<in> set ev. \<not> is_handler e"
    by blast
  have "snd (fetch_retry ?E2 ?pl1 ?s1 [0, 1, 2] [])
        = [Get ?u, Sleep (6 / 10), Get ?u, Sleep (6 / 10), Get ?u, Handler ''data'' ?s1]"
    by (simp only: 1 snd_conv)
  also note eq
  finally have a: "snd (fetch_retry ?E2 ?pl1 ?s1 [0, 1, 2] []) = ev @ [Get u, Handler c ?s1]"
    by (simp only: append_Nil)
  from nh have b: "filter is_handler ev = []" by (simp only: filter_empty_conv)
  from a b have "snd (fetch_retry ?E2 ?pl1 ?s1 [0, 1, 2] []) = ev @ [Get u, Handler c ?s1]
        \<and> filter is_handler ev = []" by (rule conjI)
  then have 3: "\<exists>ev u c. snd (fetch_retry ?E2 ?pl1 ?s1 [0, 1, 2] []) = ev @ [Get u, Handler c ?s1]
        \<and> filter is_handler ev = []"
    by blast
  from 1 2 3 show ?thesis by (intro conjI)
qed

section \<open>Properties of the watch loop\<close>

lemma watch_segments_no_result:
  assumes ret: "watch_segments E interval polls i s = Some y"
  shows False
proof (rule watch_segments.raw_induct [where P = "\<lambda>E interval polls i s y. False", OF _ ret])
  fix f :: "env \<Rightarrow> rat \<Rightarrow> (nat \<Rightarrow> exn + string) \<Rightarrow> nat \<Rightarrow> playlist \<times> event list \<Rightarrow> unit option"
    and E interval polls i s y
  assume IH: "\<And>E interval polls i s y. f E interval polls i s = Some y \<Longrightarrow> False"
    and eq: "f E interval polls (Suc i) (cycle E interval (polls i) s) = Some y"
  from eq show False by (rule IH)
qed

lemma watch_segments_never_returns: "watch_segments E interval polls i s = None"
  using watch_segments_no_result [of E interval polls i s]
  by (cases "watch_segments E interval polls i s") auto

lemma cycle_try_events:
  "\<exists>ev. snd (snd (cycle_try E interval poll (pl, tr))) = tr @ Get (url pl) # ev
        \<and> url (fst (snd (cycle_try E interval poll (pl, tr)))) = url pl"
proof (cases poll)
  case (Inl e)
  then show ?thesis by (simp add: cycle_try_def)
next
  case (Inr body)
  show ?thesis
  proof (cases "M3U8 E body")
    case (Inl e)
    with Inr show ?thesis by (simp add: cycle_try_def)
  next
    case m: (Inr m)
    obtain r pl' tr' where fs: "for_segments E (segments m) (pl, tr @ [Get (url pl)]) = (r, pl', tr')"
      by (cases "for_segments E (segments m) (pl, tr @ [Get (url pl)])")
    from for_segments_events [OF fs]
    obtain ev where ev: "tr' = (tr @ [Get (url pl)]) @ ev" "pl' = pl\<lparr>last_seq := last_seq pl'\<rparr>"
      by blast
    from ev(2) have u: "url pl' = url pl" by (cases pl') auto
    show ?thesis
      using Inr m fs ev(1) u
      by (cases r) (auto simp: cycle_try_def py_sleep_def)
  qed
qed

lemma cycle_events:
  "\<exists>ev. snd (cycle E interval poll (pl, tr)) = tr @ Get (url pl) # ev
        \<and> url (fst (cycle E interval poll (pl, tr))) = url pl"
proof -
  obtain r pl' tr' where ct: "cycle_try E interval poll (pl, tr) = (r, pl', tr')"
    by (cases "cycle_try E interval poll (pl, tr)")
  with cycle_try_events [of E interval poll pl tr]
  obtain ev where "tr' = tr @ Get (url pl) # ev" "url pl' = url pl" by auto
  with ct show ?thesis by (cases r) (auto simp: cycle_def)
qed

text \<open>
  Claim C5, as amended. When a round fails (the request for the playlist raises, the
  manifest does not parse, or the segment loop raises after three failed attempts), the
  exception is printed and the loop sleeps 5 seconds, whatever the poll interval is (5 times
  the default interval of one second). The loop is not left: every round starts with the
  request for the same playlist URL, the loop continues with the next round after any
  round, and \<open>watch_segments\<close> never returns.
\<close>

theorem cycle_failure_backoff:
  "(\<forall>e pl' tr'. cycle_try E interval poll (pl, tr) = (Inl e, pl', tr')
       \<longrightarrow> cycle E interval poll (pl, tr) = (pl', tr' @ [Print e, Sleep 5]))
   \<and> (\<forall>e. poll = Inl e
       \<longrightarrow> cycle E interval poll (pl, tr) = (pl, tr @ [Get (url pl), Print e, Sleep 5]))
   \<and> (\<forall>body e. poll = Inr body \<and> M3U8 E body = Inl e
       \<longrightarrow> cycle E interval poll (pl, tr) = (pl, tr @ [Get (url pl), Print e, Sleep 5]))
   \<and> (\<forall>body m e pl' tr'. poll = Inr body \<and> M3U8 E body = Inr m
          \<and> for_segments E (segments m) (pl, tr @ [Get (url pl)]) = (Inl e, pl', tr')
       \<longrightarrow> cycle E interval poll (pl, tr) = (pl', tr' @ [Print e, Sleep 5]))
   \<and> (\<exists>ev. snd (cycle E interval poll (pl, tr)) = tr @ Get (url pl) # ev)
   \<and> url (fst (cycle E interval poll (pl, tr))) = url pl
   \<and> watch_segments E interval polls i (pl, tr)
       = watch_segments E interval polls (Suc i) (cycle E interval (polls i) (pl, tr))
   \<and> watch_segments E interval polls i (pl, tr) = None"
proof (intro conjI allI impI)
  fix e pl' tr'
  assume "cycle_try E interval poll (pl, tr) = (Inl e, pl', tr')"
  then show "cycle E interval poll (pl, tr) = (pl', tr' @ [Print e, Sleep 5])"
    by (simp add: cycle_def)
next
  fix e assume "poll = Inl e"
  then show "cycle E interval poll (pl, tr) = (pl, tr @ [Get (url pl), Print e, Sleep 5])"
    by (simp add: cycle_def cycle_try_def)
next
  fix body e assume "poll = Inr body \<and> M3U8 E body = Inl e"
  then show "cycle E interval poll (pl, tr) = (pl, tr @ [Get (url pl), Print e, Sleep 5])"
    by (simp add: cycle_def cycle_try_def)
next
  fix body m e pl' tr'
  assume "poll = Inr body \<and> M3U8 E body = Inr m
          \<and> for_segments E (segments m) (pl, tr @ [Get (url pl)]) = (Inl e, pl', tr')"
  then show "cycle E interval poll (pl, tr) = (pl', tr' @ [Print e, Sleep 5])"
    by (simp add: cycle_def cycle_try_def)
next
  from cycle_events [of E interval poll pl tr]
  show "\<exists>ev. snd (cycle E interval poll (pl, tr)) = tr @ Get (url pl) # ev" by blast
next
  from cycle_events [of E interval poll pl tr]
  show "url (fst (cycle E interval poll (pl, tr))) = url pl" by blast
next
  show "watch_segments E interval polls i (pl, tr)
       = watch_segments E interval polls (Suc i) (cycle E interval (polls i) (pl, tr))"
    by (subst watch_segments.simps) simp
next
  show "watch_segments E interval polls i (pl, tr) = None"
    by (rule watch_segments_never_returns)
qed

text \<open>With a poll interval of 2 seconds the back-off is 5 seconds, not 10.\<close>

theorem cycle_failure_backoff_counterexample:
  "cycle
     \<lparr>M3U8 = \<lambda>_. Inl ParseError, urljoin = \<lambda>b u. Inr (b @ u),
      seg_get = \<lambda>_ _. Inl RequestError, handler = \<lambda>_ _ _. Inr ()\<rparr>
     2 (Inl RequestError)
     (\<lparr>url = ''https://h/live/chunklist.m3u8'', base_url = ''https://h/live/'', resolution = 640,
       pl_framerate = 30, last_seq = - 1\<rparr>, [])
   = (\<lparr>url = ''https://h/live/chunklist.m3u8'', base_url = ''https://h/live/'', resolution = 640,
       pl_framerate = 30, last_seq = - 1\<rparr>,
      [Get ''https://h/live/chunklist.m3u8'', Print RequestError, Sleep 5])
   \<and> Sleep 5 \<noteq> Sleep (5 * 2)"
  by (simp add: cycle_def cycle_try_def)

theorem cycle_failure_backoff_witness:
  "cycle
     \<lparr>M3U8 = \<lambda>_. Inl ParseError, urljoin = \<lambda>b u. Inr (b @ u),
      seg_get = \<lambda>_ _. Inl RequestError, handler = \<lambda>_ _ _. Inr ()\<rparr>
     2 (Inl RequestError)
     (\<lparr>url = ''https://h/live/chunklist.m3u8'', base_url = ''https://h/live/'', resolution = 640,
       pl_framerate = 30, last_seq = - 1\<rparr>, [])
   = (\<lparr>url = ''https://h/live/chunklist.m3u8'', base_url = ''https://h/live/'', resolution = 640,
       pl_framerate = 30, last_seq = - 1\<rparr>,
      [Get ''https://h/live/chunklist.m3u8'', Print RequestError, Sleep 5])
   \<and> cycle
     \<lparr>M3U8 = \<lambda>_. Inl ParseError, urljoin = \<lambda>b u. Inr (b @ u),
      seg_get = \<lambda>_ _. Inl RequestError, handler = \<lambda>_ _ _. Inr ()\<rparr>
     2 (Inr ''not a manifest'')
     (\<lparr>url = ''https://h/live/chunklist.m3u8'', base_url = ''https://h/live/'', resolution = 640,
       pl_framerate = 30, last_seq = - 1\<rparr>, [])
   = (\<lparr>url = ''https://h/live/chunklist.m3u8'', base_url = ''https://h/live/'', resolution = 640,
       pl_framerate = 30, last_seq = - 1\<rparr>,
      [Get ''https://h/live/chunklist.m3u8'', Print ParseError, Sleep 5])"
proof -
  let ?E = "\<lparr>M3U8 = \<lambda>_. Inl ParseError, urljoin = \<lambda>b u. Inr (b @ u),
      seg_get = \<lambda>_ _. Inl RequestError, handler = \<lambda>_ _ _. Inr ()\<rparr>"
  let ?pl = "\<lparr>url = ''https://h/live/chunklist.m3u8'', base_url = ''https://h/live/'',
              resolution = 640, pl_framerate = 30, last_seq = - 1\<rparr>"
  note A = cycle_failure_backoff [where E = ?E and interval = 2 and poll = "Inl RequestError"
      and pl = ?pl and tr = "[]"]
  note A2 = A [THEN conjunct2, THEN conjunct1, rule_format]
  have "cycle ?E 2 (Inl RequestError) (?pl, [])
          = (?pl, [] @ [Get (url ?pl), Print RequestError, Sleep 5])"
    by (rule A2) (rule refl)
  then have 1: "cycle ?E 2 (Inl RequestError) (?pl, [])
          = (?pl, [Get ''https://h/live/chunklist.m3u8'', Print RequestError, Sleep 5])"
    by simp
  note B = cycle_failure_backoff [where E = ?E and interval = 2 and poll = "Inr ''not a manifest''"
      and pl = ?pl and tr = "[]"]
  note B3 = B [THEN conjunct2, THEN conjunct2, THEN conjunct1, rule_format]
  have m: "M3U8 ?E ''not a manifest'' = Inl ParseError" by simp
  have "cycle ?E 2 (Inr ''not a manifest'') (?pl, [])
          = (?pl, [] @ [Get (url ?pl), Print ParseError, Sleep 5])"
    by (rule B3) (rule conjI [OF refl m])
  then have 2: "cycle ?E 2 (Inr ''not a manifest'') (?pl, [])
          = (?pl, [Get ''https://h/live/chunklist.m3u8'', Print ParseError, Sleep 5])"
    by simp
  from 1 2 show ?thesis by (rule conjI)
qed

section \<open>Delivery across rounds\<close>























end
